theory Spec2Isabelle
  imports Main "HOL-Library.Word" "HOL-Library.AList" "HOL-Library.List_Lexorder" "HOL-Library.Char_ord"
begin

unbundle bit_operations_syntax

section \<open>Bytes, errors and panics\<close>

text \<open>
  Go's \<open>[]byte\<close> and the package's \<open>Bytes\<close> are lists of 8-bit words; a nil slice and an
  empty slice are both \<open>[]\<close>. An \<open>error\<close> return is an \<open>err option\<close> (\<open>None\<close> for nil).
  A run-time panic (slice bounds, nil dereference, negative WaitGroup counter) is the
  outcome \<open>Panics\<close>.
\<close>

type_synonym byte = "8 word"
type_synonym bytes = "byte list"

datatype err =
    EOF
  | ErrUnexpectedEOF
  | ErrOverflow
  | Canceled
  | Failure string
  | EscapeError string
  | InvalidHostError string
  | Errorf string err
  | CreateError err "err option"

datatype 'a outcome = Returns 'a | Panics

section \<open>encoding/binary: unsigned varints\<close>

text \<open>
  \<open>binary.PutUvarint\<close>: while \<open>x >= 0x80\<close> emit \<open>byte(x) | 0x80\<close> and shift \<open>x\<close> right by
  seven; then emit \<open>byte(x)\<close>. The model returns the bytes \<open>buf[:n]\<close>.
\<close>

function PutUvarint :: "64 word \<Rightarrow> bytes" where
  "PutUvarint x =
     (if x \<ge> 0x80 then (ucast x OR 0x80) # PutUvarint (drop_bit 7 x) else [ucast x])"
  by pat_completeness auto
termination
proof (relation "measure unat")
  show "wf (measure unat)" by simp
next
  fix x :: "64 word"
  assume "0x80 \<le> x"
  then have "128 \<le> unat x" by (simp add: word_le_nat_alt)
  then have "unat x div 2 ^ 7 < unat x" by (intro div_less_dividend) simp_all
  moreover have "unat (drop_bit 7 x) = unat x div 2 ^ 7"
    by (subst unat_drop_bit_eq) (simp add: drop_bit_eq_div)
  ultimately show "(drop_bit 7 x, x) \<in> measure unat"
    by (simp only: in_measure)
qed

declare PutUvarint.simps [simp del]

text \<open>
  An Indication owns a byte slice. \<open>buf\<close> holds its \<open>len\<close> bytes; \<open>spare\<close> holds the bytes
  of the backing array between \<open>len\<close> and \<open>cap\<close>, which a slice expression can reach.
\<close>

record Indication =
  buf :: bytes
  spare :: bytes

record indicationReader =
  ind :: Indication
  idx :: nat

definition Reader :: "Indication \<Rightarrow> indicationReader" where
  "Reader i = \<lparr>ind = i, idx = 0\<rparr>"

definition ReadByte :: "indicationReader \<Rightarrow> (err + byte) \<times> indicationReader" where
  "ReadByte r =
     (if idx r \<ge> length (buf (ind r)) then (Inl EOF, r)
      else (Inr (buf (ind r) ! idx r), r\<lparr>idx := idx r + 1\<rparr>))"

definition MaxVarintLen64 :: nat where
  "MaxVarintLen64 = 10"

text \<open>
  \<open>binary.ReadUvarint\<close>, the loop from iteration \<open>i\<close> with accumulator \<open>x\<close> and shift \<open>s\<close>.
  An \<open>EOF\<close> after at least one byte becomes \<open>ErrUnexpectedEOF\<close>; a tenth byte above 1,
  or more than ten bytes, is \<open>ErrOverflow\<close>.
\<close>

function ReadUvarint_from ::
  "nat \<Rightarrow> 64 word \<Rightarrow> nat \<Rightarrow> indicationReader \<Rightarrow> (64 word \<times> err option) \<times> indicationReader" where
  "ReadUvarint_from i x s r =
     (if i < MaxVarintLen64 then
        (case ReadByte r of
           (Inl e, r') \<Rightarrow> ((x, Some (if i > 0 \<and> e = EOF then ErrUnexpectedEOF else e)), r')
         | (Inr b, r') \<Rightarrow>
             if b < 0x80 then
               (if i = MaxVarintLen64 - 1 \<and> b > 1 then ((x, Some ErrOverflow), r')
                else ((x OR push_bit s (ucast b), None), r'))
             else ReadUvarint_from (i + 1) (x OR push_bit s (ucast (b AND 0x7f))) (s + 7) r')
      else ((x, Some ErrOverflow), r))"
  by pat_completeness auto
termination
  by (relation "measure (\<lambda>(i, x, s, r). MaxVarintLen64 - i)") auto

declare ReadUvarint_from.simps [simp del]

definition ReadUvarint :: "indicationReader \<Rightarrow> (64 word \<times> err option) \<times> indicationReader" where
  "ReadUvarint r = ReadUvarint_from 0 0 0 r"

section \<open>The Indication buffer\<close>

text \<open>
  \<open>append(i.buf, bs...)\<close>: the bytes go into the spare capacity when they fit; otherwise
  the runtime allocates a new array, copies the buffer into it and clears what is left of
  it. The language leaves the new capacity open; the model takes the one the runtime's
  \<open>growslice\<close> computes for a byte slice (Go 1.18 and later): \<open>nextslicecap\<close> takes the
  new length when it exceeds twice the old capacity, doubles an old capacity below 256
  and otherwise grows it by a quarter plus 192 until it suffices, and \<open>roundupsize\<close>
  rounds the result up to the allocator's next size class: the multiples of 8 up to 32,
  the multiples of 16 up to 256, above them the sizes of \<open>class_to_size\<close>, and whole
  pages of 8192 bytes above the largest class.
\<close>

definition cap :: "Indication \<Rightarrow> nat" where
  "cap i = length (buf i) + length (spare i)"

function nextslicecap_loop :: "nat \<Rightarrow> nat \<Rightarrow> nat" where
  "nextslicecap_loop newcap newLen =
     (let newcap' = newcap + (newcap + 3 * 256) div 4
      in if newLen \<le> newcap' then newcap' else nextslicecap_loop newcap' newLen)"
  by pat_completeness auto

termination
  by (relation "measure (\<lambda>(newcap, newLen). newLen - newcap)") auto

declare nextslicecap_loop.simps [simp del]

definition nextslicecap :: "nat \<Rightarrow> nat \<Rightarrow> nat" where
  "nextslicecap newLen oldCap =
     (if oldCap + oldCap < newLen then newLen
      else if oldCap < 256 then oldCap + oldCap
      else nextslicecap_loop oldCap newLen)"

definition class_to_size :: "nat list" where
  "class_to_size =
     [288, 320, 352, 384, 416, 448, 480, 512, 576, 640, 704, 768, 896, 1024, 1152, 1280,
      1408, 1536, 1792, 2048, 2304, 2688, 3072, 3200, 3456, 4096, 4864, 5376, 6144, 6528,
      6784, 6912, 8192, 9472, 9728, 10240, 10880, 12288, 13568, 14336, 16384, 18432, 19072,
      20480, 21760, 24576, 27264, 28672, 32768]"

fun first_fit :: "nat \<Rightarrow> nat list \<Rightarrow> nat" where
  "first_fit n [] = (n + 8191) div 8192 * 8192"
| "first_fit n (c # cs) = (if n \<le> c then c else first_fit n cs)"

definition roundupsize :: "nat \<Rightarrow> nat" where
  "roundupsize n =
     (if n \<le> 32 then (n + 7) div 8 * 8
      else if n \<le> 256 then (n + 15) div 16 * 16
      else first_fit n class_to_size)"

definition append_buf :: "Indication \<Rightarrow> bytes \<Rightarrow> Indication" where
  "append_buf i bs =
     (if length bs \<le> length (spare i)
      then \<lparr>buf = buf i @ bs, spare = drop (length bs) (spare i)\<rparr>
      else
        (let newLen = length (buf i) + length bs;
             newcap = roundupsize (nextslicecap newLen (cap i))
         in \<lparr>buf = buf i @ bs, spare = replicate (newcap - newLen) 0\<rparr>))"

definition writeSlice :: "Indication \<Rightarrow> bytes \<Rightarrow> Indication" where
  "writeSlice i bs = append_buf (append_buf i (PutUvarint (of_nat (length bs)))) bs"

definition Write :: "bytes \<Rightarrow> bytes \<Rightarrow> Indication \<Rightarrow> Indication" where
  "Write key val i = writeSlice (writeSlice i key) val"

definition Reset :: "Indication \<Rightarrow> Indication" where
  "Reset i = \<lparr>buf = [], spare = buf i @ spare i\<rparr>"

text \<open>
  \<open>readSlice\<close> inside \<open>Next\<close>: the slice expression \<open>buf[idx : idx+int(length)]\<close> panics
  unless \<open>idx \<le> idx+int(length) \<le> cap(buf)\<close>; \<open>int(length)\<close> is the two's complement
  reading of the 64-bit length, so a length of \<open>2^63\<close> or more is negative.
\<close>

definition readSlice :: "indicationReader \<Rightarrow> ((bytes \<times> err option) \<times> indicationReader) outcome" where
  "readSlice r =
     (case ReadUvarint r of
        ((n, Some e), r') \<Rightarrow> Returns (([], Some e), r')
      | ((n, None), r') \<Rightarrow>
          (let lo = int (idx r'); hi = int (idx r') + sint n in
           if lo \<le> hi \<and> hi \<le> int (cap (ind r'))
           then Returns ((take (nat (sint n)) (drop (idx r') (buf (ind r') @ spare (ind r'))), None),
                         r'\<lparr>idx := nat hi\<rparr>)
           else Panics))"

definition Next :: "indicationReader \<Rightarrow> ((bytes \<times> bytes \<times> err option) \<times> indicationReader) outcome" where
  "Next r =
     (if idx r = length (buf (ind r)) then Returns (([], [], Some EOF), r)
      else
        (case readSlice r of
           Panics \<Rightarrow> Panics
         | Returns ((key, Some e), r') \<Rightarrow> Returns ((key, [], Some e), r')
         | Returns ((key, None), r') \<Rightarrow>
             (case readSlice r' of
                Panics \<Rightarrow> Panics
              | Returns ((val, e), r'') \<Rightarrow> Returns ((key, val, e), r''))))"

text \<open>
  One entry of the binary encoding, \<open>varuint(len(k)) || k || varuint(len(v)) || v\<close>, and
  the concatenation of entries. \<open>Writes\<close> is a sequence of \<open>Write\<close> calls in order.
\<close>

definition entry_bytes :: "bytes \<Rightarrow> bytes \<Rightarrow> bytes" where
  "entry_bytes k v = PutUvarint (of_nat (length k)) @ k @ PutUvarint (of_nat (length v)) @ v"

definition entries_bytes :: "(bytes \<times> bytes) list \<Rightarrow> bytes" where
  "entries_bytes kvs = concat (map (\<lambda>(k, v). entry_bytes k v) kvs)"

definition Writes :: "(bytes \<times> bytes) list \<Rightarrow> Indication \<Rightarrow> Indication" where
  "Writes kvs i = fold (\<lambda>(k, v). Write k v) kvs i"

text \<open>Go's \<open>len\<close> is an \<open>int\<close>: every slice is shorter than \<open>2^63\<close> bytes.\<close>

definition fits_int :: "bytes \<Rightarrow> bool" where
  "fits_int bs = (length bs < 2 ^ 63)"

text \<open>\<open>[]byte(s)\<close> for a string constant.\<close>

definition bytes_of :: "string \<Rightarrow> bytes" where
  "bytes_of s = map of_char s"

section \<open>Reading back what was written\<close>

text \<open>Each successful read moves the reader forward inside the backing array.\<close>

lemma low7_is_mask: "(0x7f :: 'a::len word) = mask 7"
  by (simp add: mask_eq_exp_minus_1)

lemma bit_word_0x80: "bit (0x80 :: 'a::len word) n \<longleftrightarrow> n = 7 \<and> 7 < LENGTH('a)"
proof -
  have "(0x80 :: 'a word) = 2 ^ 7" by simp
  then have "bit (0x80 :: 'a word) n \<longleftrightarrow> bit (2 ^ 7 :: 'a word) n" by (simp only:)
  then show ?thesis by (auto simp only: bit_exp_iff possible_bit_word)
qed

lemma bit_int_0x80: "bit (0x80 :: int) n \<longleftrightarrow> n = 7"
proof -
  have "(0x80 :: int) = 2 ^ 7" by simp
  then have "bit (0x80 :: int) n \<longleftrightarrow> bit (2 ^ 7 :: int) n" by (simp only:)
  then show ?thesis by (auto simp only: bit_exp_iff possible_bit_int)
qed

lemma continuation_byte_ge: "\<not> ((ucast (y::64 word) OR 0x80 :: 8 word) < 0x80)"
proof -
  have "(0x80 :: 8 word) \<le> ucast y OR 0x80"
    by (rule le_word_or1)
  then show ?thesis by simp
qed

lemma continuation_byte_low7: "ucast ((ucast (y::64 word) OR 0x80 :: 8 word) AND 0x7f) = (y AND 0x7f :: 64 word)"
  unfolding low7_is_mask
  by (rule bit_eqI) (auto simp: bit_simps bit_word_0x80 bit_int_0x80)

lemma unat_ucast_byte: "unat (ucast (y::64 word) :: 8 word) = unat y mod 256"
  by (simp add: unsigned_ucast_eq take_bit_eq_mod)

lemma unat_ucast_u64: "unat (ucast (b::8 word) :: 64 word) = unat b"
proof -
  have "unat b < 2 ^ 8" using unsigned_less [of b] by simp
  then show ?thesis by (simp add: unsigned_ucast_eq take_bit_eq_mod)
qed

lemma final_byte_lt: "(y::64 word) < 0x80 \<Longrightarrow> (ucast y :: 8 word) < 0x80"
  by (simp add: word_less_nat_alt unat_ucast_byte)

lemma final_byte_ucast: "(y::64 word) < 0x80 \<Longrightarrow> (ucast (ucast y :: 8 word) :: 64 word) = y"
  by (simp add: word_less_nat_alt unat_ucast_byte unat_ucast_u64 word_unat_eq_iff)

lemma tenth_byte_le_1: "unat (y::64 word) < 2 \<Longrightarrow> \<not> (ucast y :: 8 word) > 1"
  by (simp add: word_less_nat_alt unat_ucast_byte)

lemma varint_reassemble: "push_bit s ((y::64 word) AND 0x7f) OR push_bit (s + 7) (drop_bit 7 y) = push_bit s y"
  unfolding low7_is_mask
proof (rule bit_eqI)
  fix n
  show "bit (push_bit s (y AND mask 7) OR push_bit (s + 7) (drop_bit 7 y)) n = bit (push_bit s y) n"
    by (cases "n - s < 7") (auto simp: bit_simps)
qed


lemma ReadByte_ind: "ReadByte r = (x, r') \<Longrightarrow> ind r' = ind r"
  by (auto simp: ReadByte_def split: if_splits)

lemma ReadByte_Inr: "ReadByte r = (Inr b, r') \<Longrightarrow> idx r' = idx r + 1 \<and> idx r < length (buf (ind r))"
  by (auto simp: ReadByte_def split: if_splits)

lemma ReadUvarint_from_ok:
  "ReadUvarint_from i x s r = ((n, None), r') \<Longrightarrow>
     ind r' = ind r \<and> idx r < idx r' \<and> idx r' \<le> length (buf (ind r))"
proof (induction i x s r rule: ReadUvarint_from.induct)
  case (1 i x s r)
  show ?case
  proof (cases "ReadByte r")
    case (Pair a r1)
    show ?thesis
    proof (cases a)
      case (Inl e)
      with Pair "1.prems" show ?thesis
        by (simp add: ReadUvarint_from.simps [of i x s r] split: if_splits)
    next
      case (Inr b)
      note rb = ReadByte_Inr [OF Pair [unfolded Inr]] ReadByte_ind [OF Pair]
      show ?thesis
      proof (cases "b < 0x80")
        case True
        with Pair Inr "1.prems" rb show ?thesis
          by (simp add: ReadUvarint_from.simps [of i x s r] split: if_splits)
      next
        case False
        with Pair Inr "1.prems" have lt: "i < MaxVarintLen64"
          and rec: "ReadUvarint_from (i + 1) (x OR push_bit s (ucast (b AND 0x7f))) (s + 7) r1 = ((n, None), r')"
          by (simp_all add: ReadUvarint_from.simps [of i x s r] split: if_splits)
        from "1.IH" [OF lt Pair [symmetric] Inr False rec] rb show ?thesis by simp
      qed
    qed
  qed
qed

lemma readSlice_ok:
  "readSlice r = Returns ((bs, None), r') \<Longrightarrow>
     ind r' = ind r \<and> idx r < idx r' \<and> idx r' \<le> cap (ind r)"
  unfolding readSlice_def ReadUvarint_def
  by (auto simp: Let_def split: prod.splits option.splits if_splits dest!: ReadUvarint_from_ok)

lemma Next_ok:
  "Next r = Returns ((k, v, None), r') \<Longrightarrow>
     ind r' = ind r \<and> idx r < idx r' \<and> idx r' \<le> cap (ind r)"
  unfolding Next_def
  by (auto split: if_splits outcome.splits prod.splits option.splits dest!: readSlice_ok)

function drain :: "indicationReader \<Rightarrow> ((bytes \<times> bytes) list \<times> err) outcome" where
  "drain r =
     (case Next r of
        Panics \<Rightarrow> Panics
      | Returns ((k, v, Some e), r') \<Rightarrow> Returns ([], e)
      | Returns ((k, v, None), r') \<Rightarrow>
          (case drain r' of
             Panics \<Rightarrow> Panics
           | Returns (kvs, e) \<Rightarrow> Returns ((k, v) # kvs, e)))"
  by pat_completeness auto
termination
proof (relation "measure (\<lambda>r. cap (ind r) - idx r)")
  show "wf (measure (\<lambda>r. cap (ind r) - idx r))" by simp
next
  fix r x1 x r' k ya v yb
  assume "Next r = Returns x1" "(x, r') = x1" "(k, ya) = x" "(v, yb) = ya" "yb = None"
  then have "Next r = Returns ((k, v, None), r')" by auto
  from Next_ok [OF this] have "ind r' = ind r" "idx r < idx r'" "idx r' \<le> cap (ind r)"
    by simp_all
  then show "(r', r) \<in> measure (\<lambda>r. cap (ind r) - idx r)" by simp
qed


lemma ReadByte_at:
  "buf (ind r) = pre @ b # post \<Longrightarrow> idx r = length pre \<Longrightarrow>
     ReadByte r = (Inr b, r\<lparr>idx := length pre + 1\<rparr>)"
  by (simp add: ReadByte_def)

lemma ReadUvarint_from_PutUvarint:
  "buf (ind r) = pre @ PutUvarint y @ post \<Longrightarrow> idx r = length pre \<Longrightarrow> i \<le> 9 \<Longrightarrow>
   unat y < 2 ^ (64 - 7 * i) \<Longrightarrow>
   ReadUvarint_from i acc (7 * i) r =
     ((acc OR push_bit (7 * i) y, None), r\<lparr>idx := length pre + length (PutUvarint y)\<rparr>)"
proof (induction y arbitrary: i acc pre r rule: PutUvarint.induct)
  case (1 y)
  show ?case
  proof (cases "0x80 \<le> y")
    case True
    let ?b = "ucast y OR 0x80 :: byte"
    let ?r1 = "r\<lparr>idx := length pre + 1\<rparr>"
    have put: "PutUvarint y = ?b # PutUvarint (drop_bit 7 y)"
      using True by (subst PutUvarint.simps) simp
    have rb: "ReadByte r = (Inr ?b, ?r1)"
      using "1.prems"(1,2) by (intro ReadByte_at [where post = "PutUvarint (drop_bit 7 y) @ post"]) (simp_all add: put)
    have big: "128 \<le> unat y" using True by (simp add: word_le_nat_alt)
    have i8: "i \<le> 8"
    proof (rule ccontr)
      assume "\<not> i \<le> 8"
      with "1.prems"(3) have "i = 9" by simp
      with "1.prems"(4) big show False by simp
    qed
    have div: "unat (drop_bit 7 y) = unat y div 2 ^ 7"
      by (subst unat_drop_bit_eq) (simp add: drop_bit_eq_div)
    have "64 - 7 * i = 7 + (64 - 7 * (i + 1))" using i8 by simp
    then have "(2::nat) ^ (64 - 7 * i) = 2 ^ 7 * 2 ^ (64 - 7 * (i + 1))"
      by (simp only: power_add)
    with "1.prems"(4) have small: "unat (drop_bit 7 y) < 2 ^ (64 - 7 * (i + 1))"
      unfolding div by (simp add: less_mult_imp_div_less mult.commute)
    have IH: "ReadUvarint_from (i + 1) (acc OR push_bit (7 * i) (y AND 0x7f)) (7 * (i + 1)) ?r1 =
        (((acc OR push_bit (7 * i) (y AND 0x7f)) OR push_bit (7 * (i + 1)) (drop_bit 7 y), None),
         ?r1\<lparr>idx := length (pre @ [?b]) + length (PutUvarint (drop_bit 7 y))\<rparr>)"
      using "1.prems"(1) i8 small
      by (intro "1.IH" [OF True]) (simp_all add: put)
    have "ReadUvarint_from i acc (7 * i) r =
        ReadUvarint_from (i + 1) (acc OR push_bit (7 * i) (y AND 0x7f)) (7 * (i + 1)) ?r1"
      using i8 by (subst ReadUvarint_from.simps) (simp add: rb continuation_byte_ge continuation_byte_low7 MaxVarintLen64_def add.commute)
    also note IH
    finally show ?thesis
      using varint_reassemble [of "7 * i" y] by (simp add: put or.assoc add.commute)
  next
    case False
    then have lt: "y < 0x80" by simp
    have put: "PutUvarint y = [ucast y]"
      using False by (subst PutUvarint.simps) simp
    have rb: "ReadByte r = (Inr (ucast y), r\<lparr>idx := length pre + 1\<rparr>)"
      using "1.prems"(1,2) by (intro ReadByte_at [where post = post]) (simp_all add: put)
    have nine: "i = 9 \<Longrightarrow> \<not> (ucast y :: byte) > 1"
      using "1.prems"(4) by (intro tenth_byte_le_1) simp
    show ?thesis
      using "1.prems"(3) nine
      by (subst ReadUvarint_from.simps) (auto simp: rb final_byte_lt [OF lt] final_byte_ucast [OF lt] MaxVarintLen64_def put)
  qed
qed


lemma PutUvarint_nonempty: "PutUvarint x \<noteq> []"
  by (subst PutUvarint.simps) simp

lemma sint_of_nat_len: "n < 2 ^ 63 \<Longrightarrow> sint (of_nat n :: 64 word) = int n"
  by (simp add: signed_of_nat signed_take_bit_int_eq_self)

lemma unat_of_nat_len: "n < 2 ^ 63 \<Longrightarrow> unat (of_nat n :: 64 word) = n"
  by (simp add: unat_of_nat)

lemma ReadUvarint_PutUvarint:
  assumes "buf (ind r) = pre @ PutUvarint y @ post" "idx r = length pre"
  shows "ReadUvarint r = ((y, None), r\<lparr>idx := length pre + length (PutUvarint y)\<rparr>)"
proof -
  have "unat y < 2 ^ 64" using unsigned_less [of y] by simp
  then show ?thesis
    using ReadUvarint_from_PutUvarint [OF assms, of 0 0] by (simp add: ReadUvarint_def)
qed

lemma readSlice_written:
  assumes b: "buf (ind r) = pre @ PutUvarint (of_nat (length bs)) @ bs @ post"
    and i: "idx r = length pre" and n: "length bs < 2 ^ 63"
  shows "readSlice r =
     Returns ((bs, None), r\<lparr>idx := length pre + length (PutUvarint (of_nat (length bs))) + length bs\<rparr>)"
proof -
  note ru = ReadUvarint_PutUvarint [OF b i]
  show ?thesis
    unfolding readSlice_def ru
    by (simp add: Let_def sint_of_nat_len [OF n] cap_def b nat_add_distrib)
qed

lemma Next_written:
  assumes b: "buf (ind r) = pre @ entry_bytes k v @ post"
    and i: "idx r = length pre" and n: "length k < 2 ^ 63" "length v < 2 ^ 63"
  shows "Next r = Returns ((k, v, None), r\<lparr>idx := length pre + length (entry_bytes k v)\<rparr>)"
proof -
  let ?pk = "PutUvarint (of_nat (length k))"
  let ?pv = "PutUvarint (of_nat (length v))"
  let ?r1 = "r\<lparr>idx := length pre + length ?pk + length k\<rparr>"
  have ne: "idx r \<noteq> length (buf (ind r))"
    using PutUvarint_nonempty [of "of_nat (length k)"] by (simp add: b i entry_bytes_def)
  have s1: "readSlice r = Returns ((k, None), ?r1)"
    using b i n(1) by (intro readSlice_written [where post = "?pv @ v @ post"]) (simp_all add: entry_bytes_def)
  have s2: "readSlice ?r1 =
      Returns ((v, None), ?r1\<lparr>idx := length (pre @ ?pk @ k) + length ?pv + length v\<rparr>)"
    using b n(2) by (intro readSlice_written [where post = post]) (simp_all add: entry_bytes_def)
  show ?thesis
    unfolding Next_def using ne by (simp add: s1 s2 entry_bytes_def)
qed

lemma drain_entries:
  "buf (ind r) = pre @ entries_bytes kvs \<Longrightarrow> idx r = length pre \<Longrightarrow>
   list_all (\<lambda>(k, v). fits_int k \<and> fits_int v) kvs \<Longrightarrow>
   drain r = Returns (kvs, EOF)"
proof (induction kvs arbitrary: pre r)
  case Nil
  then have "Next r = Returns (([], [], Some EOF), r)"
    by (simp add: Next_def entries_bytes_def)
  then show ?case by (subst drain.simps) simp
next
  case (Cons kv kvs)
  obtain k v where kv: "kv = (k, v)" by (cases kv)
  let ?r1 = "r\<lparr>idx := length pre + length (entry_bytes k v)\<rparr>"
  from Cons.prems have nx: "Next r = Returns ((k, v, None), ?r1)"
    by (intro Next_written [where post = "entries_bytes kvs"])
       (simp_all add: kv entries_bytes_def fits_int_def)
  have "drain ?r1 = Returns (kvs, EOF)"
    using Cons.prems by (intro Cons.IH [where pre = "pre @ entry_bytes k v"]) (simp_all add: kv entries_bytes_def)
  then show ?case by (subst drain.simps) (simp add: nx kv)
qed

lemma buf_append_buf: "buf (append_buf i bs) = buf i @ bs"
  by (simp add: append_buf_def Let_def)

lemma buf_Write: "buf (Write k v i) = buf i @ entry_bytes k v"
  by (simp add: Write_def writeSlice_def buf_append_buf entry_bytes_def)

lemma buf_Writes: "buf (Writes kvs i) = buf i @ entries_bytes kvs"
  by (induction kvs arbitrary: i) (auto simp: Writes_def entries_bytes_def buf_Write)


text \<open>
  C3. A buffer that is a concatenation of entries (each key and value of a length Go can
  hold) is read back entry by entry: the reader yields exactly the pairs \<open>kvs\<close>, in
  order, and then end-of-sequence, so re-encoding what it yields gives the buffer
  \<open>entries_bytes kvs\<close> again. A sequence of \<open>Write\<close> calls on an empty Indication
  produces exactly that buffer, whatever capacity was spare, and reads back the same.
\<close>

theorem indication_roundtrip:
  assumes "list_all (\<lambda>(k, v). fits_int k \<and> fits_int v) kvs"
  shows "drain (Reader \<lparr>buf = entries_bytes kvs, spare = sp\<rparr>) = Returns (kvs, EOF)
       \<and> buf (Writes kvs \<lparr>buf = [], spare = sp\<rparr>) = entries_bytes kvs
       \<and> drain (Reader (Writes kvs \<lparr>buf = [], spare = sp\<rparr>)) = Returns (kvs, EOF)"
proof -
  have a: "drain (Reader \<lparr>buf = entries_bytes kvs, spare = sp\<rparr>) = Returns (kvs, EOF)"
    using assms by (intro drain_entries [where pre = "[]"]) (simp_all add: Reader_def)
  have b: "buf (Writes kvs \<lparr>buf = [], spare = sp\<rparr>) = entries_bytes kvs"
    by (simp add: buf_Writes)
  have c: "drain (Reader (Writes kvs \<lparr>buf = [], spare = sp\<rparr>)) = Returns (kvs, EOF)"
    using assms b by (intro drain_entries [where pre = "[]"]) (simp_all add: Reader_def)
  from a b c show ?thesis by simp
qed

theorem indication_roundtrip_witness:
  "drain (Reader \<lparr>buf = entries_bytes [(bytes_of ''hello'', bytes_of ''world''),
                                        (bytes_of ''Hello2'', bytes_of ''World2'')],
                  spare = replicate 256 0\<rparr>)
     = Returns ([(bytes_of ''hello'', bytes_of ''world''),
                 (bytes_of ''Hello2'', bytes_of ''World2'')], EOF)
   \<and> buf (Writes [(bytes_of ''hello'', bytes_of ''world''),
                  (bytes_of ''Hello2'', bytes_of ''World2'')] \<lparr>buf = [], spare = replicate 256 0\<rparr>)
     = entries_bytes [(bytes_of ''hello'', bytes_of ''world''),
                      (bytes_of ''Hello2'', bytes_of ''World2'')]
   \<and> drain (Reader (Writes [(bytes_of ''hello'', bytes_of ''world''),
                           (bytes_of ''Hello2'', bytes_of ''World2'')]
                     \<lparr>buf = [], spare = replicate 256 0\<rparr>))
     = Returns ([(bytes_of ''hello'', bytes_of ''world''),
                 (bytes_of ''Hello2'', bytes_of ''World2'')], EOF)"
  using indication_roundtrip [of "[(bytes_of ''hello'', bytes_of ''world''),
                                  (bytes_of ''Hello2'', bytes_of ''World2'')]" "replicate 256 0"]
  by (simp add: fits_int_def bytes_of_def)

section \<open>The Indication pool\<close>

text \<open>
  \<open>indicationCache\<close> is a \<open>sync.Pool\<close> of \<open>*Indication\<close>: the model keeps the pointers
  put into it, most recent first; a pointer is \<open>None\<close> for nil, else the Indication it
  points to. \<open>Put\<close> stores whatever pointer it is given: an interface value holding a
  nil \<open>*Indication\<close> is not a nil interface. \<open>Get\<close> may hand out any stored item or
  ignore the pool and call \<open>New\<close>: the argument \<open>pick\<close> is that choice (\<open>Some n\<close> takes
  item \<open>n\<close> when there is one). \<open>New\<close> makes an empty buffer of capacity 256.
\<close>

type_synonym pool = "Indication option list"

definition pool_New :: "Indication option" where
  "pool_New = Some \<lparr>buf = [], spare = replicate 256 0\<rparr>"

definition NewIndication :: "nat option \<Rightarrow> pool \<Rightarrow> Indication option \<times> pool" where
  "NewIndication pick p =
     (case pick of
        None \<Rightarrow> (pool_New, p)
      | Some n \<Rightarrow> if n < length p then (p ! n, take n p @ drop (Suc n) p) else (pool_New, p))"

text \<open>\<open>PutIndication(&i)\<close>: the pointer goes into the pool as it is and the caller's variable becomes nil.\<close>

definition PutIndication :: "Indication option \<Rightarrow> pool \<Rightarrow> Indication option \<times> pool" where
  "PutIndication i p = (None, i # p)"

text \<open>
  C4. The claim (every acquire returns an empty Indication, also one released after it
  was written to) fails on the code: neither \<open>PutIndication\<close> nor \<open>NewIndication\<close> calls
  \<open>Reset\<close>. Here an Indication is acquired from the empty pool, written to once and
  released; the next acquire can hand it out again, still holding the four bytes of the
  entry.
\<close>

theorem released_indication_comes_back_dirty:
  "NewIndication (Some 0)
     (snd (PutIndication (map_option (Write [0x61] [0x62]) (fst (NewIndication None []))) []))
   = (Some \<lparr>buf = [1, 0x61, 1, 0x62], spare = replicate 252 0\<rparr>, [])"
  by code_simp

text \<open>
  C5. The claim (\<open>Next\<close> fails gracefully on every malformed buffer) fails on the code:
  \<open>readSlice\<close> slices the buffer with the decoded length unchecked. A buffer whose first
  varint is \<open>2^64-1\<close> (nine bytes \<open>0xFF\<close>, then \<open>0x01\<close>) makes \<open>int(length)\<close> equal \<open>-1\<close>,
  and the slice expression \<open>buf[10:9]\<close> panics whatever the capacity. A declared length
  of 5 with one byte left panics when the capacity ends there; when the capacity allows,
  the key is filled with bytes from beyond the buffer's length and the call ends with
  \<open>io.EOF\<close>, which callers take for the regular end of the sequence.
\<close>

theorem Next_panics_on_corrupt_length:
  "Next (Reader \<lparr>buf = [0xFF, 0xFF, 0xFF, 0xFF, 0xFF, 0xFF, 0xFF, 0xFF, 0xFF, 0x01], spare = sp\<rparr>) = Panics
   \<and> Next (Reader \<lparr>buf = [5, 0x61], spare = []\<rparr>) = Panics
   \<and> Next (Reader \<lparr>buf = [5, 0x61], spare = [7, 7, 7, 7, 0, 7]\<rparr>)
       = Returns (([0x61, 7, 7, 7, 7], [], Some EOF),
                  \<lparr>ind = \<lparr>buf = [5, 0x61], spare = [7, 7, 7, 7, 0, 7]\<rparr>, idx = 6\<rparr>)"
proof -
  have a: "Next (Reader \<lparr>buf = [0xFF, 0xFF, 0xFF, 0xFF, 0xFF, 0xFF, 0xFF, 0xFF, 0xFF, 0x01], spare = sp\<rparr>) = Panics"
    by (simp add: Next_def readSlice_def ReadUvarint_def ReadUvarint_from.simps ReadByte_def
        Reader_def MaxVarintLen64_def cap_def Let_def)
  have b: "Next (Reader \<lparr>buf = [5, 0x61], spare = []\<rparr>) = Panics"
    by code_simp
  have c: "Next (Reader \<lparr>buf = [5, 0x61], spare = [7, 7, 7, 7, 0, 7]\<rparr>)
       = Returns (([0x61, 7, 7, 7, 7], [], Some EOF),
                  \<lparr>ind = \<lparr>buf = [5, 0x61], spare = [7, 7, 7, 7, 0, 7]\<rparr>, idx = 6\<rparr>)"
    by code_simp
  from a b c show ?thesis by (simp only: simp_thms)
qed

section \<open>Leaf indicators\<close>

text \<open>
  An \<open>io.Reader\<close> is modelled by what reading it to the end gives: the bytes it yields
  and the error that ends them (\<open>None\<close> for a clean \<open>io.EOF\<close>). \<open>known_size\<close> is what
  the reader's \<open>Len\<close>, \<open>Size\<close>, \<open>Stat\<close> or \<open>Seek\<close> methods give for the number of bytes
  left, or the error of \<open>Stat\<close> or \<open>Seek\<close>; it is \<open>None\<close> for a reader with none of these
  methods. A context is its
  \<open>ctx.Err()\<close>, fixed during a call. An \<open>Indicator\<close> gets the \<open>*Indication\<close> to write
  into and returns its error and the state of the pointee; it panics when it
  dereferences a nil pointer.
\<close>

record Source =
  data :: bytes
  rerr :: "err option"
  known_size :: "(err + nat) option"

type_synonym ctx = "err option"

type_synonym Indicator =
  "ctx \<Rightarrow> Source \<Rightarrow> Indication option \<Rightarrow> (err option \<times> Indication option) outcome"

text \<open>
  \<open>copyContext\<close> is \<open>io.Copy\<close> through \<open>readerContext\<close> and \<open>writerContext\<close>: a cancelled
  context fails the first \<open>Read\<close>; otherwise every byte is copied and the reader's
  error, if any, is returned with the count.
\<close>

definition copyContext :: "ctx \<Rightarrow> Source \<Rightarrow> nat \<times> err option" where
  "copyContext c r = (case c of Some e \<Rightarrow> (0, Some e) | None \<Rightarrow> (length (data r), rerr r))"

text \<open>\<open>binary.BigEndian.PutUint64\<close>.\<close>

definition PutUint64 :: "64 word \<Rightarrow> bytes" where
  "PutUint64 v =
     [ucast (drop_bit 56 v), ucast (drop_bit 48 v), ucast (drop_bit 40 v), ucast (drop_bit 32 v),
      ucast (drop_bit 24 v), ucast (drop_bit 16 v), ucast (drop_bit 8 v), ucast v]"

definition lengthIndicatorKey :: string where
  "lengthIndicatorKey = ''length''"

text \<open>\<open>ind.Write(key, value)\<close> through the pointer: a nil receiver panics at \<open>i.buf\<close>.\<close>

definition Write_ptr :: "bytes \<Rightarrow> bytes \<Rightarrow> Indication option \<Rightarrow> Indication option outcome" where
  "Write_ptr k v p = (case p of None \<Rightarrow> Panics | Some i \<Rightarrow> Returns (Some (Write k v i)))"

text \<open>
  \<open>hashAndLengthIndicator.Indicate\<close>. The hasher is the function from the bytes written
  to what \<open>h.Sum(buf[:0])\<close> returns.
\<close>

definition hashAndLengthIndicator_Indicate :: "(bytes \<Rightarrow> bytes) \<Rightarrow> string \<Rightarrow> Indicator" where
  "hashAndLengthIndicator_Indicate hasher key c r p =
     (case copyContext c r of
        (n, Some e) \<Rightarrow> Returns (Some e, p)
      | (n, None) \<Rightarrow>
          (case Write_ptr (bytes_of lengthIndicatorKey) (PutUint64 (of_nat n)) p of
             Panics \<Rightarrow> Panics
           | Returns p1 \<Rightarrow>
               (case Write_ptr (bytes_of key) (hasher (data r)) p1 of
                  Panics \<Rightarrow> Panics
                | Returns p2 \<Rightarrow> Returns (None, p2))))"

text \<open>
  \<open>hash/crc32\<close> with the IEEE polynomial, as the package's generic code computes it: the
  table entry of a byte (\<open>simplePopulateTable\<close>), the update loop (\<open>simpleUpdate\<close>, whose
  body is \<open>crc_step\<close>) and
  \<open>digest.Sum\<close>, which appends the checksum's four bytes, most significant first.
\<close>

definition IEEE :: "32 word" where
  "IEEE = 0xedb88320"

definition crc_shift :: "32 word \<Rightarrow> 32 word" where
  "crc_shift crc = (if crc AND 1 = 1 then drop_bit 1 crc XOR IEEE else drop_bit 1 crc)"

definition IEEETable :: "byte \<Rightarrow> 32 word" where
  "IEEETable i = (crc_shift ^^ 8) (ucast i)"

definition crc_step :: "32 word \<Rightarrow> byte \<Rightarrow> 32 word" where
  "crc_step crc v = IEEETable (ucast crc XOR v) XOR drop_bit 8 crc"

definition simpleUpdate :: "32 word \<Rightarrow> bytes \<Rightarrow> 32 word" where
  "simpleUpdate crc p = NOT (foldl crc_step (NOT crc) p)"

definition crc32_Sum :: "bytes \<Rightarrow> bytes" where
  "crc32_Sum p =
     (let s = simpleUpdate 0 p
      in [ucast (drop_bit 24 s), ucast (drop_bit 16 s), ucast (drop_bit 8 s), ucast s])"

definition CRC32Indicator :: Indicator where
  "CRC32Indicator = hashAndLengthIndicator_Indicate crc32_Sum ''crc32''"

text \<open>
  \<open>lengthIndicator.Indicate\<close>: the type switch takes the length from the reader's own
  methods when it has one of them, and otherwise reads the stream to the end
  and counts.
\<close>

definition LengthIndicator :: Indicator where
  "LengthIndicator c r p =
     (case
        (case known_size r of
           Some (Inl e) \<Rightarrow> Inl e
         | Some (Inr n) \<Rightarrow> Inr n
         | None \<Rightarrow> (case copyContext c r of (n, Some e) \<Rightarrow> Inl e | (n, None) \<Rightarrow> Inr n))
      of
        Inl e \<Rightarrow> Returns (Some e, p)
      | Inr n \<Rightarrow>
          (case Write_ptr (bytes_of lengthIndicatorKey) (PutUint64 (of_nat n)) p of
             Panics \<Rightarrow> Panics
           | Returns p1 \<Rightarrow> Returns (None, p1)))"

text \<open>\<open>crypto/sha256\<close> is not modelled: the digest function is a parameter.\<close>

definition SHA256Indicator :: "(bytes \<Rightarrow> bytes) \<Rightarrow> Indicator" where
  "SHA256Indicator sha256_Sum = hashAndLengthIndicator_Indicate sha256_Sum ''sha256''"

lemma IEEETable_unfold:
  "IEEETable i = crc_shift (crc_shift (crc_shift (crc_shift (crc_shift (crc_shift (crc_shift (crc_shift (ucast i))))))))"
proof -
  have "(8::nat) = Suc (Suc (Suc (Suc (Suc (Suc (Suc (Suc 0)))))))" by simp
  then show ?thesis by (simp only: IEEETable_def funpow.simps o_apply id_apply)
qed

lemma bytes_of_hello_world:
  "bytes_of ''hello, world!'' = [0x68, 0x65, 0x6c, 0x6c, 0x6f, 0x2c, 0x20, 0x77, 0x6f, 0x72, 0x6c, 0x64, 0x21]"
  by (simp add: bytes_of_def)

lemma crc32_Sum_hello_world:
  "crc32_Sum [0x68, 0x65, 0x6c, 0x6c, 0x6f, 0x2c, 0x20, 0x77, 0x6f, 0x72, 0x6c, 0x64, 0x21] = [0x58, 0x98, 0x8D, 0x13]"
proof -
  have n0: "NOT (0::32 word) = 0xFFFFFFFF" by simp
  have f: "foldl crc_step 0xFFFFFFFF [0x68, 0x65, 0x6c, 0x6c, 0x6f, 0x2c, 0x20, 0x77, 0x6f, 0x72, 0x6c, 0x64, 0x21]
      = 2808574700"
    by (simp add: crc_step_def IEEETable_unfold crc_shift_def IEEE_def)
  have n1: "NOT (2808574700::32 word) = 1486392595" by simp
  have su: "simpleUpdate 0 [0x68, 0x65, 0x6c, 0x6c, 0x6f, 0x2c, 0x20, 0x77, 0x6f, 0x72, 0x6c, 0x64, 0x21]
      = 1486392595"
    by (simp only: simpleUpdate_def n0 f n1)
  show ?thesis
    unfolding crc32_Sum_def su by simp
qed

text \<open>
  C6. A HashAndLength indicator that returns no error has written exactly two entries
  after what the Indication held, in this order: \<open>length\<close> with the eight big-endian
  bytes of the byte count, then the key with the hash of the data. The length value has
  8 bytes and a CRC-32 value 4; the CRC-32 of \<open>hello, world!\<close> is \<open>58 98 8D 13\<close>.
\<close>

theorem hashAndLength_writes_two_entries:
  assumes "hashAndLengthIndicator_Indicate hasher key c r (Some i) = Returns (None, p)"
  shows "p = Some (Writes [(bytes_of ''length'', PutUint64 (of_nat (length (data r)))),
                           (bytes_of key, hasher (data r))] i)
       \<and> length (PutUint64 (of_nat (length (data r)))) = 8
       \<and> length (crc32_Sum (data r)) = 4
       \<and> crc32_Sum (bytes_of ''hello, world!'') = [0x58, 0x98, 0x8D, 0x13]"
proof -
  have a: "p = Some (Writes [(bytes_of ''length'', PutUint64 (of_nat (length (data r)))),
                             (bytes_of key, hasher (data r))] i)"
    using assms
    by (auto simp: hashAndLengthIndicator_Indicate_def copyContext_def Write_ptr_def Writes_def
        lengthIndicatorKey_def split: option.splits prod.splits)
  have b: "length (PutUint64 (of_nat (length (data r)))) = 8"
    by (simp add: PutUint64_def)
  have c: "length (crc32_Sum (data r)) = 4"
    by (simp add: crc32_Sum_def Let_def)
  have d: "crc32_Sum (bytes_of ''hello, world!'') = [0x58, 0x98, 0x8D, 0x13]"
    by (simp only: bytes_of_hello_world crc32_Sum_hello_world)
  from a b c d show ?thesis by (simp only: simp_thms)
qed

theorem hashAndLength_writes_two_entries_witness:
  "CRC32Indicator None \<lparr>data = bytes_of ''hello, world!'', rerr = None, known_size = None\<rparr> (Some \<lparr>buf = [], spare = replicate 256 0\<rparr>)
     = Returns (None, Some \<lparr>buf = [6, 0x6c, 0x65, 0x6e, 0x67, 0x74, 0x68, 8, 0, 0, 0, 0, 0, 0, 0, 13,
                                    5, 0x63, 0x72, 0x63, 0x33, 0x32, 4, 0x58, 0x98, 0x8D, 0x13],
                             spare = replicate 229 0\<rparr>)
   \<and> Some \<lparr>buf = [6, 0x6c, 0x65, 0x6e, 0x67, 0x74, 0x68, 8, 0, 0, 0, 0, 0, 0, 0, 13,
                   5, 0x63, 0x72, 0x63, 0x33, 0x32, 4, 0x58, 0x98, 0x8D, 0x13],
            spare = replicate 229 0\<rparr>
     = Some (Writes [(bytes_of ''length'', PutUint64 (of_nat (length (bytes_of ''hello, world!'')))),
                     (bytes_of ''crc32'', crc32_Sum (bytes_of ''hello, world!''))]
               \<lparr>buf = [], spare = replicate 256 0\<rparr>)"
proof -
  have h: "hashAndLengthIndicator_Indicate crc32_Sum ''crc32'' None
             \<lparr>data = bytes_of ''hello, world!'', rerr = None, known_size = None\<rparr> (Some \<lparr>buf = [], spare = replicate 256 0\<rparr>)
     = Returns (None, Some \<lparr>buf = [6, 0x6c, 0x65, 0x6e, 0x67, 0x74, 0x68, 8, 0, 0, 0, 0, 0, 0, 0, 13,
                                    5, 0x63, 0x72, 0x63, 0x33, 0x32, 4, 0x58, 0x98, 0x8D, 0x13],
                             spare = replicate 229 0\<rparr>)"
    unfolding bytes_of_hello_world
    by (simp add: hashAndLengthIndicator_Indicate_def copyContext_def Write_ptr_def Write_def
        writeSlice_def append_buf_def PutUvarint.simps PutUint64_def lengthIndicatorKey_def
        bytes_of_def crc32_Sum_hello_world)
  from hashAndLength_writes_two_entries [OF h] h show ?thesis
    by (simp only: CRC32Indicator_def Source.simps simp_thms)
qed


section \<open>The composite indicator\<close>

text \<open>
  \<open>Indicators\<close> holds one request channel per child (\<open>reqs\<close>, here their number) and
  the children. \<open>Close\<close> closes the channels and sets both fields to nil.
\<close>

record Indicators =
  reqs :: nat
  irs :: "Indicator list"

definition NewIndicators :: "Indicator list \<Rightarrow> Indicators" where
  "NewIndicators cs = \<lparr>reqs = length cs, irs = cs\<rparr>"

definition Close :: "Indicators \<Rightarrow> Indicators" where
  "Close c = \<lparr>reqs = 0, irs = []\<rparr>"

text \<open>\<open>sync.WaitGroup.Add\<close> panics when the counter would go negative.\<close>

definition wg_Add :: "int \<Rightarrow> int \<Rightarrow> int outcome" where
  "wg_Add counter delta = (if counter + delta < 0 then Panics else Returns (counter + delta))"

text \<open>One \<open>NewIndication()\<close> per lane, in lane order; \<open>picks i\<close> is the pool's choice for lane \<open>i\<close>.\<close>

fun new_lanes :: "(nat \<Rightarrow> nat option) \<Rightarrow> nat \<Rightarrow> nat \<Rightarrow> pool \<Rightarrow> Indication option list \<times> pool" where
  "new_lanes picks i 0 p = ([], p)"
| "new_lanes picks i (Suc n) p =
     (case NewIndication (picks i) p of
        (x, p1) \<Rightarrow> (case new_lanes picks (Suc i) n p1 of (xs, p2) \<Rightarrow> (x # xs, p2)))"

text \<open>
  The lanes run concurrently: lane 0 reads the source through the tee, every other lane
  reads a pipe that carries the bytes lane 0 has read and is closed without error once
  lane 0 is done; neither an \<open>io.TeeReader\<close> nor an \<open>*io.PipeReader\<close> has a size
  method. A panic in a worker ends the program.

  The model covers children that read their reader to the end unless the context is
  done, as every indicator of the package does (\<open>copyContext\<close>, and the composite
  itself through its first child): then lane 0 reads all of the source, the tee writes all
  of it into every pipe, and each child sees the same bytes, which is what \<open>tee\<close>, \<open>pipe\<close>
  and \<open>run_lanes\<close> say. A child of another kind that returns before the end of its
  stream couples the lanes (the worker closes its pipe, the tee's next write fails, and
  lane 0 and the later pipes get less than the source holds); that coupling depends on
  how the reads are chunked and is outside the model.
\<close>

definition tee :: "Source \<Rightarrow> Source" where
  "tee r = \<lparr>data = data r, rerr = rerr r, known_size = None\<rparr>"

definition pipe :: "Source \<Rightarrow> Source" where
  "pipe r = \<lparr>data = data r, rerr = None, known_size = None\<rparr>"

fun run_lanes ::
  "ctx \<Rightarrow> Source \<Rightarrow> bool \<Rightarrow> Indicator list \<Rightarrow> Indication option list
     \<Rightarrow> (err option \<times> Indication option) list outcome" where
  "run_lanes c r first (ir # cs) (lane # lanes) =
     (case ir c (if first then tee r else pipe r) lane of
        Panics \<Rightarrow> Panics
      | Returns res \<Rightarrow>
          (case run_lanes c r False cs lanes of
             Panics \<Rightarrow> Panics
           | Returns rest \<Rightarrow> Returns (res # rest)))"
| "run_lanes c r first cs lanes = Returns []"

text \<open>
  The merge loop over one lane's reader. \<open>visited\<close> is the set of keys written so far
  (a list used as a set). An error other than \<open>io.EOF\<close> is recorded and the loop goes on
  with whatever key and value \<open>Next\<close> returned.
\<close>

function merge_lane ::
  "indicationReader \<Rightarrow> err option \<times> bytes list \<times> Indication option
     \<Rightarrow> (err option \<times> bytes list \<times> Indication option) outcome" where
  "merge_lane r (errs, visited, out) =
     (case Next r of
        Panics \<Rightarrow> Panics
      | Returns ((key, val, e), r') \<Rightarrow>
          if e = Some EOF then Returns (errs, visited, out)
          else
            (let errs' = (case e of None \<Rightarrow> errs | Some x \<Rightarrow> Some (CreateError x errs))
             in if key \<in> set visited then merge_lane r' (errs', visited, out)
                else
                  (case Write_ptr key val out of
                     Panics \<Rightarrow> Panics
                   | Returns out' \<Rightarrow> merge_lane r' (errs', key # visited, out'))))"
  by pat_completeness auto

text \<open>Termination: every call of \<open>Next\<close> that does not end in \<open>io.EOF\<close> moves the reader forward.\<close>

lemma ReadUvarint_from_mono:
  "ReadUvarint_from i x s r = (res, r') \<Longrightarrow>
     ind r' = ind r \<and> idx r \<le> idx r' \<and> idx r' \<le> max (idx r) (length (buf (ind r)))"
proof (induction i x s r rule: ReadUvarint_from.induct)
  case (1 i x s r)
  show ?case
  proof (cases "ReadByte r")
    case (Pair a r1)
    show ?thesis
    proof (cases a)
      case (Inl e)
      with Pair "1.prems" show ?thesis
        by (auto simp: ReadUvarint_from.simps [of i x s r] ReadByte_def split: if_splits)
    next
      case (Inr b)
      note rb = ReadByte_Inr [OF Pair [unfolded Inr]] ReadByte_ind [OF Pair]
      show ?thesis
      proof (cases "b < 0x80")
        case True
        with Pair Inr "1.prems" rb show ?thesis
          by (auto simp: ReadUvarint_from.simps [of i x s r] split: if_splits)
      next
        case False
        show ?thesis
        proof (cases "i < MaxVarintLen64")
          case lt: True
          with False Pair Inr "1.prems"
          have rec: "ReadUvarint_from (i + 1) (x OR push_bit s (ucast (b AND 0x7f))) (s + 7) r1 = (res, r')"
            by (simp add: ReadUvarint_from.simps [of i x s r])
          from "1.IH" [OF lt Pair [symmetric] Inr False rec] rb show ?thesis by auto
        next
          case False
          with "1.prems" show ?thesis by (simp add: ReadUvarint_from.simps [of i x s r])
        qed
      qed
    qed
  qed
qed

lemma ReadUvarint_progress:
  assumes "ReadUvarint r = ((n, e), r')" "e \<noteq> Some EOF"
  shows "ind r' = ind r \<and> idx r < idx r' \<and> idx r' \<le> length (buf (ind r))"
proof (cases "ReadByte r")
  case (Pair a r1)
  show ?thesis
  proof (cases a)
    case (Inl x)
    with Pair assms show ?thesis
      by (auto simp: ReadUvarint_def ReadUvarint_from.simps [of 0 0 0 r] ReadByte_def
          MaxVarintLen64_def split: if_splits)
  next
    case (Inr b)
    note rb = ReadByte_Inr [OF Pair [unfolded Inr]] ReadByte_ind [OF Pair]
    show ?thesis
    proof (cases "b < 0x80")
      case True
      with Pair Inr assms rb show ?thesis
        by (auto simp: ReadUvarint_def ReadUvarint_from.simps [of 0 0 0 r] MaxVarintLen64_def
            split: if_splits)
    next
      case False
      with Pair Inr assms
      have "ReadUvarint_from 1 (0 OR push_bit 0 (ucast (b AND 0x7f))) 7 r1 = ((n, e), r')"
        by (simp add: ReadUvarint_def ReadUvarint_from.simps [of 0 0 0 r] MaxVarintLen64_def)
      from ReadUvarint_from_mono [OF this] rb show ?thesis by auto
    qed
  qed
qed

lemma readSlice_progress:
  "readSlice r = Returns ((bs, e), r') \<Longrightarrow> e \<noteq> Some EOF \<Longrightarrow>
     ind r' = ind r \<and> idx r < idx r' \<and> idx r' \<le> cap (ind r)"
  unfolding readSlice_def
  by (auto simp: Let_def cap_def split: prod.splits option.splits if_splits dest!: ReadUvarint_progress)

lemma Next_progress:
  "Next r = Returns ((k, v, e), r') \<Longrightarrow> e \<noteq> Some EOF \<Longrightarrow>
     ind r' = ind r \<and> idx r < idx r' \<and> idx r' \<le> cap (ind r)"
  unfolding Next_def
  by (auto split: if_splits outcome.splits prod.splits option.splits dest!: readSlice_progress readSlice_ok)

lemma Next_measure:
  "Next r = Returns ((k, v, e), r') \<Longrightarrow> e \<noteq> Some EOF \<Longrightarrow>
     cap (ind r') - idx r' < cap (ind r) - idx r"
  by (drule (1) Next_progress) auto

termination merge_lane
  by (relation "measure (\<lambda>(r, st). cap (ind r) - idx r)") (auto intro: Next_measure)

declare merge_lane.simps [simp del]

text \<open>
  The merge over the requests in lane order: a lane whose child failed adds its error and
  is skipped; a nil lane buffer panics when its reader is used.
\<close>

fun merge_reqs ::
  "(err option \<times> Indication option) list \<Rightarrow> err option \<times> bytes list \<times> Indication option
     \<Rightarrow> (err option \<times> bytes list \<times> Indication option) outcome" where
  "merge_reqs [] st = Returns st"
| "merge_reqs ((e, lane) # rest) (errs, visited, out) =
     (case e of
        Some x \<Rightarrow> merge_reqs rest (Some (CreateError x errs), visited, out)
      | None \<Rightarrow>
          (case lane of
             None \<Rightarrow> Panics
           | Some i \<Rightarrow>
               (case merge_lane (Reader i) (errs, visited, out) of
                  Panics \<Rightarrow> Panics
                | Returns st' \<Rightarrow> merge_reqs rest st')))"

text \<open>
  \<open>Indicators.Indicate\<close>: the wait groups, one fresh Indication per lane from the pool,
  the lanes, the merge into the caller's Indication \<open>out\<close>, and every lane's Indication
  put back into the pool. It returns the aggregated error, the caller's Indication and
  the pool.
\<close>

definition Indicators_Indicate ::
  "Indicators \<Rightarrow> (nat \<Rightarrow> nat option) \<Rightarrow> ctx \<Rightarrow> Source \<Rightarrow> Indication option \<Rightarrow> pool
     \<Rightarrow> ((err option \<times> Indication option) \<times> pool) outcome" where
  "Indicators_Indicate c picks cx r out p =
     (case wg_Add 0 1 of
        Panics \<Rightarrow> Panics
      | Returns wg0 \<Rightarrow>
          (case wg_Add 0 (int (length (irs c)) - 1) of
             Panics \<Rightarrow> Panics
           | Returns wg1 \<Rightarrow>
               (case new_lanes picks 0 (reqs c) p of
                  (lanes, p1) \<Rightarrow>
                    (case run_lanes cx r True (irs c) lanes of
                       Panics \<Rightarrow> Panics
                     | Returns results \<Rightarrow>
                         (case merge_reqs results (None, [], out) of
                            Panics \<Rightarrow> Panics
                          | Returns (errs, visited, out') \<Rightarrow>
                              Returns ((errs, out'),
                                       fold (\<lambda>res q. snd (PutIndication (snd res) q)) results p1))))))"

section \<open>Resource URIs\<close>

record URI =
  Scheme :: string
  Hostname :: string
  Path :: string
  Query :: string


subsection \<open>net/url\<close>




definition HasPrefix :: "string \<Rightarrow> string \<Rightarrow> bool" where
  "HasPrefix s pre = (take (length pre) s = pre)"











































subsection \<open>The URI type\<close>



definition String :: "URI \<Rightarrow> string" where
  "String u =
     concat
       [Scheme u,
        '':'',
        (if Hostname u \<noteq> [] then ''//'' else []),
        Hostname u,
        (if Hostname u \<noteq> [] \<and> Path u \<noteq> [] \<and> \<not> HasPrefix (Path u) ''/'' then ''/'' else []),
        Path u,
        (if Query u \<noteq> [] \<and> \<not> HasPrefix (Query u) ''?'' then ''?'' else []),
        Query u]"

section \<open>The pipeline's workers\<close>

text \<open>
  A request carries the URI and the thunk \<open>rsc\<close> that opens the resource; the model
  holds the thunk's result: the error, or the opened file with its bytes and the errors
  its \<open>Read\<close>, \<open>Seek\<close> and \<open>Close\<close> give.
\<close>

record File =
  content :: bytes
  read_err :: "err option"
  stat_err :: "err option"
  seek_err :: "err option"
  close_err :: "err option"

record indicationRequest =
  uri :: URI
  rsc :: "err + File"

record indictionResult =
  res_uri :: URI
  res_ind :: "Indication option"
  res_err :: "err option"

text \<open>An \<open>*os.File\<close> at its start: it has \<open>Stat\<close>, whose size is the length of the content.\<close>

definition file_Source :: "File \<Rightarrow> Source" where
  "file_Source f =
     \<lparr>data = content f, rerr = read_err f,
      known_size = Some (case stat_err f of Some e \<Rightarrow> Inl e | None \<Rightarrow> Inr (length (content f)))\<rparr>"

text \<open>\<open>defer errors.Catch(&Err, rsc.Close)\<close>: the error of \<open>Close\<close> is added to the returned one.\<close>

definition Catch :: "err option \<Rightarrow> err option \<Rightarrow> err option" where
  "Catch Err closed =
     (case closed of None \<Rightarrow> Err | Some e \<Rightarrow> Some (CreateError e Err))"

text \<open>The loop over the configured indicators, each followed by a seek back to the start.\<close>

fun run_indicators ::
  "ctx \<Rightarrow> File \<Rightarrow> Indicator list \<Rightarrow> Indication option \<Rightarrow> (err option \<times> Indication option) outcome" where
  "run_indicators c f [] p = Returns (None, p)"
| "run_indicators c f (ir # rest) p =
     (case ir c (file_Source f) p of
        Panics \<Rightarrow> Panics
      | Returns (Some e, p') \<Rightarrow> Returns (Some e, p')
      | Returns (None, p') \<Rightarrow>
          (case seek_err f of
             Some e \<Rightarrow> Returns (Some (Errorf ''failed to rewind for next indication'' e), p')
           | None \<Rightarrow> run_indicators c f rest p'))"

text \<open>
  The body of the loop of \<open>scanReadSeekClosers\<close> for one request: the result it sends,
  whether the worker goes on to the next request, and the pool. Every failure returns a
  nil Indication with the error; the Indication acquired at the start is then dropped.
\<close>

definition scanReadSeekClosers_request ::
  "ctx \<Rightarrow> Indicator list \<Rightarrow> indicationRequest \<Rightarrow> nat option \<Rightarrow> pool
     \<Rightarrow> ((indictionResult \<times> bool) \<times> pool) outcome" where
  "scanReadSeekClosers_request c indicators req pick p =
     (case c of
        Some e \<Rightarrow> Returns ((\<lparr>res_uri = uri req, res_ind = None, res_err = Some e\<rparr>, False), p)
      | None \<Rightarrow>
          (case NewIndication pick p of
             (i0, p1) \<Rightarrow>
               (case rsc req of
                  Inl e \<Rightarrow> Returns ((\<lparr>res_uri = uri req, res_ind = None, res_err = Some e\<rparr>, True), p1)
                | Inr f \<Rightarrow>
                    (case seek_err f of
                       Some e \<Rightarrow>
                         Returns ((\<lparr>res_uri = uri req, res_ind = None,
                                    res_err = Catch (Some (Errorf ''failed to determine current offset'' e))
                                                (close_err f)\<rparr>, True), p1)
                     | None \<Rightarrow>
                         (case run_indicators c f indicators i0 of
                            Panics \<Rightarrow> Panics
                          | Returns (Some e, i1) \<Rightarrow>
                              Returns ((\<lparr>res_uri = uri req, res_ind = None,
                                         res_err = Catch (Some e) (close_err f)\<rparr>, True), p1)
                          | Returns (None, i1) \<Rightarrow>
                              Returns ((\<lparr>res_uri = uri req, res_ind = i1,
                                         res_err = Catch None (close_err f)\<rparr>, True), p1))))))"

text \<open>
  The body of the persist goroutine's loop for one result, over any repository
  (\<open>setIndications\<close> is the \<open>SetIndications\<close> of the \<open>Repo\<close> interface): the repository, the pool, and
  whether the goroutine goes on. A failed \<open>SetIndications\<close> cancels and returns at once.
\<close>

definition persist_result ::
  "(URI \<Rightarrow> Indication option \<Rightarrow> 'db \<Rightarrow> (err + 'db) outcome) \<Rightarrow> indictionResult \<Rightarrow> 'db \<times> pool
     \<Rightarrow> (('db \<times> pool) \<times> bool) outcome" where
  "persist_result setIndications res st =
     (case st of
        (db, p) \<Rightarrow>
          if res_err res \<noteq> None then Returns ((db, snd (PutIndication (res_ind res) p)), True)
          else
            (case setIndications (res_uri res) (res_ind res) db of
               Panics \<Rightarrow> Panics
             | Returns (Inl e) \<Rightarrow> Returns ((db, p), False)
             | Returns (Inr db') \<Rightarrow> Returns ((db', snd (PutIndication (res_ind res) p)), True)))"

section \<open>The composite and the pool in use\<close>

text \<open>
  C1. The claim (the composite writes the first-writer-wins merge of its children's
  sequential results) fails on the code once a lane's Indication comes from the pool
  with entries in it: \<open>Indicate\<close> puts every lane's Indication back without a \<open>Reset\<close>
  and acquires the lanes with \<open>NewIndication\<close>, so a second call can get the first
  call's lane, the child appends to it, and the merge reads the old entries first. Here
  the composite of the single child \<open>LengthIndicator\<close> is run on a one-byte source and
  then on a two-byte source: the second call writes the length 1 of the first source,
  while the child alone on the second source gives the length 2.
\<close>

theorem composite_second_call_returns_stale_entries:
  "Indicators_Indicate (NewIndicators [LengthIndicator]) (\<lambda>i. None) None
       \<lparr>data = [0x61], rerr = None, known_size = Some (Inr 1)\<rparr> (Some \<lparr>buf = [], spare = []\<rparr>) []
     = Returns ((None, Some \<lparr>buf = [6, 0x6c, 0x65, 0x6e, 0x67, 0x74, 0x68, 8, 0, 0, 0, 0, 0, 0, 0, 1],
                             spare = []\<rparr>),
                [Some \<lparr>buf = [6, 0x6c, 0x65, 0x6e, 0x67, 0x74, 0x68, 8, 0, 0, 0, 0, 0, 0, 0, 1],
                       spare = replicate 240 0\<rparr>])
   \<and> Indicators_Indicate (NewIndicators [LengthIndicator]) (\<lambda>i. Some 0) None
       \<lparr>data = [0x62, 0x62], rerr = None, known_size = Some (Inr 2)\<rparr> (Some \<lparr>buf = [], spare = []\<rparr>)
       [Some \<lparr>buf = [6, 0x6c, 0x65, 0x6e, 0x67, 0x74, 0x68, 8, 0, 0, 0, 0, 0, 0, 0, 1],
              spare = replicate 240 0\<rparr>]
     = Returns ((None, Some \<lparr>buf = [6, 0x6c, 0x65, 0x6e, 0x67, 0x74, 0x68, 8, 0, 0, 0, 0, 0, 0, 0, 1],
                             spare = []\<rparr>),
                [Some \<lparr>buf = [6, 0x6c, 0x65, 0x6e, 0x67, 0x74, 0x68, 8, 0, 0, 0, 0, 0, 0, 0, 1,
                              6, 0x6c, 0x65, 0x6e, 0x67, 0x74, 0x68, 8, 0, 0, 0, 0, 0, 0, 0, 2],
                       spare = replicate 224 0\<rparr>])
   \<and> LengthIndicator None \<lparr>data = [0x62, 0x62], rerr = None, known_size = Some (Inr 2)\<rparr>
       (Some \<lparr>buf = [], spare = []\<rparr>)
     = Returns (None, Some \<lparr>buf = [6, 0x6c, 0x65, 0x6e, 0x67, 0x74, 0x68, 8, 0, 0, 0, 0, 0, 0, 0, 2],
                            spare = []\<rparr>)"
  by code_simp

text \<open>
  C9. The claim (after \<open>Close\<close>, \<open>Indicate\<close> returns an indicator-closed error) fails on
  the code: \<open>Close\<close> leaves no children, so \<open>wg1.Add(len(irs.irs) - 1)\<close> is \<open>Add(-1)\<close> on
  a zero counter, which panics before anything else happens.
\<close>

theorem Indicate_after_Close_panics:
  "Indicators_Indicate (Close c) picks cx r out p = Panics"
  by (simp add: Indicators_Indicate_def Close_def wg_Add_def)

text \<open>
  C10. When a request's open function fails, the indicate worker sends a result with a
  nil Indication and the error and goes on; the persist worker, which skips
  \<open>SetIndications\<close> for a result with an error, puts that nil pointer into the pool; and
  an acquire that is handed this item returns nil.
\<close>

theorem failed_open_puts_nil_into_pool:
  assumes "rsc req = Inl e"
  shows "scanReadSeekClosers_request None indicators req pick p
           = Returns ((\<lparr>res_uri = uri req, res_ind = None, res_err = Some e\<rparr>, True),
                      snd (NewIndication pick p))
       \<and> persist_result setIndications \<lparr>res_uri = uri req, res_ind = None, res_err = Some e\<rparr> (db, q)
           = Returns ((db, None # q), True)
       \<and> NewIndication (Some 0) (None # q) = (None, q)"
  using assms
  by (simp add: scanReadSeekClosers_request_def persist_result_def PutIndication_def
      NewIndication_def split: prod.splits)

theorem failed_open_puts_nil_into_pool_witness:
  "scanReadSeekClosers_request None [LengthIndicator]
       \<lparr>uri = \<lparr>Scheme = ''file'', Hostname = [], Path = ''/gone'', Query = []\<rparr>,
        rsc = Inl (Failure ''open /gone: no such file or directory'')\<rparr> None []
     = Returns ((\<lparr>res_uri = \<lparr>Scheme = ''file'', Hostname = [], Path = ''/gone'', Query = []\<rparr>,
                  res_ind = None,
                  res_err = Some (Failure ''open /gone: no such file or directory'')\<rparr>, True), [])
   \<and> persist_result (\<lambda>u i db. Returns (Inr db))
       \<lparr>res_uri = \<lparr>Scheme = ''file'', Hostname = [], Path = ''/gone'', Query = []\<rparr>,
        res_ind = None,
        res_err = Some (Failure ''open /gone: no such file or directory'')\<rparr> ((), [])
     = Returns (((), [None]), True)
   \<and> NewIndication (Some 0) [None] = (None, [])"
  using failed_open_puts_nil_into_pool
    [of "\<lparr>uri = \<lparr>Scheme = ''file'', Hostname = [], Path = ''/gone'', Query = []\<rparr>,
          rsc = Inl (Failure ''open /gone: no such file or directory'')\<rparr>"
        "Failure ''open /gone: no such file or directory''" "[LengthIndicator]" None "[]"
        "\<lambda>u i db. Returns (Inr db)" "()" "[]"]
  by (simp add: NewIndication_def)


section \<open>The SQL repository\<close>

text \<open>
  The rows of the two tables, as \<open>models.go\<close> declares them. The \<open>sqlstream\<close> library and
  the database are outside the repository: the model keeps each table as the list of its
  rows in insertion order, a query yields the rows that satisfy its filter in that order,
  \<open>Save\<close> of a new row generates the next id of its table, and \<open>Delete\<close> removes rows by
  their id. No database operation fails, but for a \<open>Save\<close> whose key the engine refuses.

  \<open>models.go\<close> gives every column its SQL type. \<open>Uri\<close> and \<open>Value\<close> are variable-length
  and give back what was stored in them. \<open>Key\<close> is a fixed-length string of 16 characters
  (\<open>StringType{Var: false, Length: 16}\<close>): what such a column holds once a string was
  saved in it is the database engine's rule, a \<open>column\<close> that the operations take as an
  argument. It maps the string saved to the string read back, or to the engine's error
  when it refuses the string. \<open>stored_as_is\<close> is the rule of an engine that ignores the
  declared length, as SQLite does. \<open>right_padded\<close> is the rule of an engine that pads with
  spaces to the declared length and refuses a longer string, as SQL Server does; it is the
  one the spec describes (the key is "right-padded per the database's rules for
  \<open>char(16)\<close>"). \<open>main\<close> registers drivers for both kinds.
\<close>

type_synonym column = "bytes \<Rightarrow> err + bytes"

definition stored_as_is :: column where
  "stored_as_is k = Inr k"

definition right_padded :: column where
  "right_padded k =
     (if length k \<le> 16 then Inr (k @ replicate (16 - length k) 0x20)
      else Inl (Failure ''string or binary data would be truncated''))"

record Resource =
  ResourceID :: int
  Uri :: string

record sqlrepo_Indication =
  IndicationID :: int
  ind_ResourceID :: int
  Key :: bytes
  Value :: bytes

record DB =
  Resource_table :: "Resource list"
  Indication_table :: "sqlrepo_Indication list"

definition next_id :: "int list \<Rightarrow> int" where
  "next_id ids = foldr max ids 0 + 1"

text \<open>
  An \<open>IndicationLookup\<close> is a Go map from keys to values: an association list with
  distinct keys. Ranging over it visits the entries in an order Go leaves open; the
  model takes the list's order.

  Modelled from the spec: \<open>Indication.Lookup\<close> and \<open>IndicationLookup.WriteToIndication\<close>
  are called by \<open>repo.go\<close> and are not among the sources. \<open>Lookup\<close> materialises the
  entries of the Indication as a mapping from key to value (a later entry of a key
  replaces an earlier one) and fails with the reader's error; \<open>WriteToIndication\<close>
  writes every entry of the mapping into the Indication.
\<close>

type_synonym IndicationLookup = "(bytes \<times> bytes) list"

definition Lookup :: "Indication \<Rightarrow> (err + IndicationLookup) outcome" where
  "Lookup ui =
     (case drain (Reader ui) of
        Panics \<Rightarrow> Panics
      | Returns (kvs, e) \<Rightarrow>
          if e = EOF then Returns (Inr (fold (\<lambda>(k, v) lu. AList.update k v lu) kvs []))
          else Returns (Inl e))"

definition WriteToIndication :: "IndicationLookup \<Rightarrow> Indication \<Rightarrow> Indication" where
  "WriteToIndication lu ui = Writes lu ui"

text \<open>\<open>stream.Single\<close> on the resource query: the row found, or the zero \<open>Resource\<close>.\<close>

definition Single :: "Resource list \<Rightarrow> Resource" where
  "Single rs = (case rs of [] \<Rightarrow> \<lparr>ResourceID = 0, Uri = []\<rparr> | r # _ \<Rightarrow> r)"

text \<open>
  The callback of \<open>stream.Each\<close> in \<open>SetIndications\<close>, over the existing rows of the
  resource: a row whose key maps to its value in \<open>lu\<close> is left alone and its key is
  deleted from \<open>lu\<close>; any other row is appended to \<open>deletingIndication\<close>.
\<close>

fun diff_rows ::
  "sqlrepo_Indication list \<Rightarrow> IndicationLookup \<Rightarrow> sqlrepo_Indication list
     \<Rightarrow> IndicationLookup \<times> sqlrepo_Indication list" where
  "diff_rows [] lu deleting = (lu, deleting)"
| "diff_rows (row # rows) lu deleting =
     (if map_of lu (Key row) = Some (Value row)
      then diff_rows rows (AList.delete (Key row) lu) deleting
      else diff_rows rows lu (deleting @ [row]))"

text \<open>
  The rows built for the entries left in \<open>lu\<close>, with the zero \<open>IndicationID\<close> of a row
  that is not in the table yet and the key as the indication has it (\<open>string(k)\<close>).
\<close>

fun creatingIndications :: "int \<Rightarrow> IndicationLookup \<Rightarrow> sqlrepo_Indication list" where
  "creatingIndications rid [] = []"
| "creatingIndications rid ((k, v) # lu) =
     \<lparr>IndicationID = 0, ind_ResourceID = rid, Key = k, Value = v\<rparr> # creatingIndications rid lu"

text \<open>
  \<open>db.Save\<close> of new Indication rows, in order, with ids from \<open>n\<close> on: the rows as the table
  holds them afterwards, each with the \<open>Key\<close> its column gives back, or the first error
  of the engine.
\<close>

fun Save :: "column \<Rightarrow> int \<Rightarrow> sqlrepo_Indication list \<Rightarrow> err + sqlrepo_Indication list" where
  "Save key_column n [] = Inr []"
| "Save key_column n (row # rows) =
     (case key_column (Key row) of
        Inl e \<Rightarrow> Inl e
      | Inr k \<Rightarrow>
          (case Save key_column (n + 1) rows of
             Inl e \<Rightarrow> Inl e
           | Inr saved \<Rightarrow> Inr (row\<lparr>IndicationID := n, Key := k\<rparr> # saved)))"

text \<open>What one call of \<open>SetIndications\<close> did: the tables after it and the rows it deleted and inserted.\<close>

record SetResult =
  db_after :: DB
  deleted :: "sqlrepo_Indication list"
  created :: "sqlrepo_Indication list"

text \<open>
  \<open>Repo.SetIndications\<close>. An error leaves the tables as they were: the deferred \<open>catcher\<close>
  rolls the transaction back.
\<close>

definition SetIndications :: "column \<Rightarrow> URI \<Rightarrow> Indication \<Rightarrow> DB \<Rightarrow> (err + SetResult) outcome" where
  "SetIndications key_column u ui db =
     (case Lookup ui of
        Panics \<Rightarrow> Panics
      | Returns (Inl e) \<Rightarrow> Returns (Inl e)
      | Returns (Inr lu) \<Rightarrow>
          (let res = Single (filter (\<lambda>r. Uri r = String u) (Resource_table db)) in
           if ResourceID res = 0 then
             (let res' = \<lparr>ResourceID = next_id (map ResourceID (Resource_table db)), Uri = String u\<rparr>
              in case Save key_column (next_id (map IndicationID (Indication_table db)))
                        (creatingIndications (ResourceID res') lu) of
                   Inl e \<Rightarrow> Returns (Inl (Errorf ''failed to save new indications'' e))
                 | Inr new \<Rightarrow>
                     Returns (Inr \<lparr>db_after = \<lparr>Resource_table = Resource_table db @ [res'],
                                                 Indication_table = Indication_table db @ new\<rparr>,
                                     deleted = [], created = new\<rparr>))
           else
             (case diff_rows (filter (\<lambda>i. ind_ResourceID i = ResourceID res) (Indication_table db)) lu [] of
                (lu', deleting) \<Rightarrow>
                  (let remaining = filter (\<lambda>i. IndicationID i \<notin> set (map IndicationID deleting))
                                     (Indication_table db)
                   in case Save key_column (next_id (map IndicationID (Indication_table db)))
                             (creatingIndications (ResourceID res) lu') of
                        Inl e \<Rightarrow> Returns (Inl (Errorf ''failed to save new indications'' e))
                      | Inr new \<Rightarrow>
                          Returns (Inr \<lparr>db_after = \<lparr>Resource_table = Resource_table db,
                                                      Indication_table = remaining @ new\<rparr>,
                                          deleted = deleting, created = new\<rparr>)))))"

text \<open>
  \<open>Repo.Indications\<close>: the query joins every Indication row with the Resource row of
  its \<open>ResourceID\<close>; the variable bound to the URI string is used by no filter. The rows
  are collected into a lookup, which is written into an Indication from the pool.
\<close>

definition Indications :: "URI \<Rightarrow> DB \<Rightarrow> nat option \<Rightarrow> pool \<Rightarrow> (Indication option \<times> pool) outcome" where
  "Indications u db pick p =
     (let uriStr = String u;
          rows = concat (map (\<lambda>i. map (\<lambda>r. i) (filter (\<lambda>r. ResourceID r = ind_ResourceID i)
                                                        (Resource_table db)))
                           (Indication_table db));
          lookup = fold (\<lambda>i lu. AList.update (Key i) (Value i) lu) rows []
      in case NewIndication pick p of
           (None, p') \<Rightarrow> Panics
         | (Some ui, p') \<Rightarrow> Returns (Some (WriteToIndication lookup ui), p'))"

text \<open>
  For the proofs: the rows the diff leaves alone, the rows it marks for deletion, and the
  entries it leaves in \<open>lu\<close>.
\<close>

fun matched :: "sqlrepo_Indication list \<Rightarrow> IndicationLookup \<Rightarrow> sqlrepo_Indication list" where
  "matched [] lu = []"
| "matched (row # rows) lu =
     (if map_of lu (Key row) = Some (Value row)
      then row # matched rows (AList.delete (Key row) lu)
      else matched rows lu)"

fun unmatched :: "sqlrepo_Indication list \<Rightarrow> IndicationLookup \<Rightarrow> sqlrepo_Indication list" where
  "unmatched [] lu = []"
| "unmatched (row # rows) lu =
     (if map_of lu (Key row) = Some (Value row)
      then unmatched rows (AList.delete (Key row) lu)
      else row # unmatched rows lu)"

fun rest_lu :: "sqlrepo_Indication list \<Rightarrow> IndicationLookup \<Rightarrow> IndicationLookup" where
  "rest_lu [] lu = lu"
| "rest_lu (row # rows) lu =
     (if map_of lu (Key row) = Some (Value row)
      then rest_lu rows (AList.delete (Key row) lu)
      else rest_lu rows lu)"

text \<open>For the proofs: the rows \<open>Save\<close> adds when the column keeps every key as it is.\<close>

fun saved_rows :: "int \<Rightarrow> int \<Rightarrow> IndicationLookup \<Rightarrow> sqlrepo_Indication list" where
  "saved_rows rid n [] = []"
| "saved_rows rid n ((k, v) # lu) =
     \<lparr>IndicationID = n, ind_ResourceID = rid, Key = k, Value = v\<rparr> # saved_rows rid (n + 1) lu"

text \<open>
  The schema's constraints on the tables: primary keys are distinct, no resource has the
  id 0 (the zero \<open>ResourceID\<close> stands for "not found"), and every Indication row refers
  to a resource.
\<close>

definition wf_db :: "DB \<Rightarrow> bool" where
  "wf_db db =
     (distinct (map ResourceID (Resource_table db))
      \<and> 0 \<notin> set (map ResourceID (Resource_table db))
      \<and> distinct (map IndicationID (Indication_table db))
      \<and> list_all (\<lambda>i. ind_ResourceID i \<in> set (map ResourceID (Resource_table db)))
           (Indication_table db))"

lemma diff_rows_eq: "diff_rows rows lu del = (rest_lu rows lu, del @ unmatched rows lu)"
  by (induction rows arbitrary: lu del) auto

lemma diff_rows_matched: "diff_rows (matched rows lu) lu del = (rest_lu rows lu, del)"
  by (induction rows arbitrary: lu del) auto

lemma diff_rows_append:
  "diff_rows (xs @ ys) lu del = (case diff_rows xs lu del of (lu1, d1) \<Rightarrow> diff_rows ys lu1 d1)"
  by (induction xs arbitrary: lu del) auto

lemma distinct_rest_lu: "distinct (map fst lu) \<Longrightarrow> distinct (map fst (rest_lu rows lu))"
  by (induction rows arbitrary: lu) (auto simp: distinct_delete)

lemma keys_rest_lu: "fst ` set (rest_lu rows lu) \<subseteq> fst ` set lu"
proof (induction rows arbitrary: lu)
  case Nil
  then show ?case by simp
next
  case (Cons row rows)
  show ?case
  proof (cases "map_of lu (Key row) = Some (Value row)")
    case True
    have "fst ` set (rest_lu rows (AList.delete (Key row) lu)) \<subseteq> fst ` set (AList.delete (Key row) lu)"
      by (rule Cons.IH)
    also have "\<dots> \<subseteq> fst ` set lu" by (rule dom_delete_subset)
    finally show ?thesis using True by simp
  next
    case False
    with Cons.IH [of lu] show ?thesis by simp
  qed
qed

lemma diff_rows_saved:
  "distinct (map fst lu) \<Longrightarrow> diff_rows (saved_rows rid n lu) lu del = ([], del)"
proof (induction lu arbitrary: n)
  case Nil
  then show ?case by simp
next
  case (Cons kv lu)
  obtain k v where kv: "kv = (k, v)" by (cases kv)
  from Cons.prems have "k \<notin> fst ` set lu" and "distinct (map fst lu)" by (auto simp: kv)
  with Cons.IH show ?case by (simp add: kv)
qed

lemma Save_kept:
  "(\<And>k. k \<in> fst ` set lu \<Longrightarrow> key_column k = Inr k) \<Longrightarrow>
     Save key_column n (creatingIndications rid lu) = Inr (saved_rows rid n lu)"
proof (induction lu arbitrary: n)
  case Nil
  then show ?case by simp
next
  case (Cons kv lu)
  obtain k v where kv: "kv = (k, v)" by (cases kv)
  have "key_column k = Inr k" using Cons.prems [of k] by (simp add: kv)
  moreover have "Save key_column (n + 1) (creatingIndications rid lu) = Inr (saved_rows rid (n + 1) lu)"
    using Cons.prems by (intro Cons.IH) auto
  ultimately show ?case by (simp add: kv)
qed

lemma set_unmatched: "set (unmatched rows lu) \<subseteq> set rows"
  by (induction rows arbitrary: lu) auto

lemma filter_not_deleted:
  "distinct (map IndicationID rows) \<Longrightarrow>
     filter (\<lambda>i. IndicationID i \<notin> set (map IndicationID (unmatched rows lu))) rows = matched rows lu"
proof (induction rows arbitrary: lu)
  case Nil
  then show ?case by simp
next
  case (Cons row rows)
  have sub: "\<And>lu'. IndicationID row \<notin> set (map IndicationID (unmatched rows lu'))"
    using Cons.prems set_unmatched [of rows] by auto
  show ?case
  proof (cases "map_of lu (Key row) = Some (Value row)")
    case True
    with Cons sub show ?thesis by simp
  next
    case False
    have "filter (\<lambda>i. IndicationID i \<noteq> IndicationID row
              \<and> IndicationID i \<notin> set (map IndicationID (unmatched rows lu))) rows
        = filter (\<lambda>i. IndicationID i \<notin> set (map IndicationID (unmatched rows lu))) rows"
      using Cons.prems by (intro filter_cong) (auto simp: image_iff)
    with False Cons show ?thesis by simp
  qed
qed

lemma next_id_gt: "x \<in> set ids \<Longrightarrow> x < next_id ids"
  unfolding next_id_def by (induction ids) auto

lemma next_id_pos: "0 < next_id ids"
  unfolding next_id_def by (induction ids) auto

lemma distinct_fold_update:
  "distinct (map fst lu) \<Longrightarrow> distinct (map fst (fold (\<lambda>(k, v) lu. AList.update k v lu) kvs lu))"
  by (induction kvs arbitrary: lu) (auto simp: distinct_update)

lemma Lookup_distinct:
  assumes "Lookup ui = Returns (Inr lu)"
  shows "distinct (map fst lu)"
proof (cases "drain (Reader ui)")
  case Panics
  with assms show ?thesis by (simp add: Lookup_def)
next
  case (Returns x)
  obtain kvs e where x: "x = (kvs, e)" by (cases x)
  from assms Returns x have "lu = fold (\<lambda>(k, v) lu. AList.update k v lu) kvs []"
    by (simp add: Lookup_def split: if_splits)
  then show ?thesis using distinct_fold_update [of "[]" kvs] by simp
qed

lemma SetIndications_absent:
  assumes "Lookup ui = Returns (Inr lu)"
    and "\<And>k. k \<in> fst ` set lu \<Longrightarrow> key_column k = Inr k"
    and "ResourceID (Single (filter (\<lambda>r. Uri r = String u) (Resource_table db))) = 0"
  shows "SetIndications key_column u ui db =
     Returns (Inr \<lparr>db_after =
                     \<lparr>Resource_table = Resource_table db
                        @ [\<lparr>ResourceID = next_id (map ResourceID (Resource_table db)), Uri = String u\<rparr>],
                      Indication_table = Indication_table db
                        @ saved_rows (next_id (map ResourceID (Resource_table db)))
                            (next_id (map IndicationID (Indication_table db))) lu\<rparr>,
                   deleted = [],
                   created = saved_rows (next_id (map ResourceID (Resource_table db)))
                               (next_id (map IndicationID (Indication_table db))) lu\<rparr>)"
  using assms(1,3) by (simp add: SetIndications_def Let_def Save_kept [OF assms(2)])

lemma SetIndications_present:
  assumes "Lookup ui = Returns (Inr lu)"
    and "\<And>k. k \<in> fst ` set lu \<Longrightarrow> key_column k = Inr k"
    and "Single (filter (\<lambda>r. Uri r = String u) (Resource_table db)) = res"
    and "ResourceID res \<noteq> 0"
    and "filter (\<lambda>i. ind_ResourceID i = ResourceID res) (Indication_table db) = rows"
  shows "SetIndications key_column u ui db =
     Returns (Inr \<lparr>db_after =
                     \<lparr>Resource_table = Resource_table db,
                      Indication_table =
                        filter (\<lambda>i. IndicationID i \<notin> set (map IndicationID (unmatched rows lu)))
                          (Indication_table db)
                        @ saved_rows (ResourceID res)
                            (next_id (map IndicationID (Indication_table db))) (rest_lu rows lu)\<rparr>,
                   deleted = unmatched rows lu,
                   created = saved_rows (ResourceID res)
                               (next_id (map IndicationID (Indication_table db))) (rest_lu rows lu)\<rparr>)"
proof -
  have "\<And>n rid. Save key_column n (creatingIndications rid (rest_lu rows lu))
          = Inr (saved_rows rid n (rest_lu rows lu))"
    using assms(2) keys_rest_lu [of rows lu] by (intro Save_kept) blast
  with assms(1,3,4,5) show ?thesis
    by (simp add: SetIndications_def Let_def diff_rows_eq)
qed

lemma filter_rid_saved:
  "filter (\<lambda>i. ind_ResourceID i = rid) (saved_rows rid n lu) = saved_rows rid n lu"
  by (induction lu arbitrary: n) auto

lemma unmatched_rest_empty: "unmatched (matched rows lu @ saved_rows rid n (rest_lu rows lu)) lu = []"
  if "distinct (map fst lu)"
proof -
  have "diff_rows (matched rows lu @ saved_rows rid n (rest_lu rows lu)) lu [] = ([], [])"
    using that by (simp add: diff_rows_append diff_rows_matched diff_rows_saved distinct_rest_lu)
  then show ?thesis by (simp add: diff_rows_eq)
qed

lemma rest_lu_empty: "rest_lu (matched rows lu @ saved_rows rid n (rest_lu rows lu)) lu = []"
  if "distinct (map fst lu)"
proof -
  have "diff_rows (matched rows lu @ saved_rows rid n (rest_lu rows lu)) lu [] = ([], [])"
    using that by (simp add: diff_rows_append diff_rows_matched diff_rows_saved distinct_rest_lu)
  then show ?thesis by (simp add: diff_rows_eq)
qed

text \<open>
  When the \<open>Key\<close> column gives every key of the indication back as it was saved, a call
  of \<open>SetIndications\<close> that succeeded leaves tables on which the same call deletes no
  row and inserts no row: every row of the resource matches its entry of the indication,
  so the diff empties the lookup and marks nothing.
\<close>

lemma SetIndications_again_when_keys_kept:
  assumes wf: "wf_db db" and lu: "Lookup ui = Returns (Inr lu)"
    and kept: "\<And>k. k \<in> fst ` set lu \<Longrightarrow> key_column k = Inr k"
    and first: "SetIndications key_column u ui db = Returns (Inr r1)"
  shows "SetIndications key_column u ui (db_after r1)
           = Returns (Inr \<lparr>db_after = db_after r1, deleted = [], created = []\<rparr>)"
proof -
  let ?R = "Resource_table db" and ?I = "Indication_table db"
  let ?res = "Single (filter (\<lambda>r. Uri r = String u) ?R)"
  have dl: "distinct (map fst lu)" by (rule Lookup_distinct [OF lu])
  show ?thesis
  proof (cases "ResourceID ?res = 0")
    case True
    let ?rid = "next_id (map ResourceID ?R)"
    let ?new = "saved_rows ?rid (next_id (map IndicationID ?I)) lu"
    let ?res' = "\<lparr>ResourceID = ?rid, Uri = String u\<rparr>"
    have nomatch: "filter (\<lambda>r. Uri r = String u) ?R = []"
    proof (cases "filter (\<lambda>r. Uri r = String u) ?R")
      case Nil
      then show ?thesis .
    next
      case (Cons r rs)
      then have "r \<in> set (filter (\<lambda>r. Uri r = String u) ?R)" by simp
      then have "r \<in> set ?R" by simp
      with wf have "ResourceID r \<noteq> 0" by (auto simp: wf_db_def)
      with True Cons show ?thesis by (simp add: Single_def)
    qed
    have r1: "db_after r1 = \<lparr>Resource_table = ?R @ [?res'], Indication_table = ?I @ ?new\<rparr>"
      using first SetIndications_absent [OF lu kept True] by auto
    have rid_new: "?rid \<notin> set (map ResourceID ?R)" using next_id_gt [of "?rid" "map ResourceID ?R"] by auto
    have rid0: "?rid \<noteq> 0" using next_id_pos [of "map ResourceID ?R"] by simp
    have single: "Single (filter (\<lambda>r. Uri r = String u) (Resource_table (db_after r1))) = ?res'"
      by (simp add: r1 nomatch Single_def)
    have fk: "\<And>i. i \<in> set ?I \<Longrightarrow> ind_ResourceID i \<in> set (map ResourceID ?R)"
      using wf by (simp add: wf_db_def list_all_iff)
    have old: "filter (\<lambda>i. ind_ResourceID i = ?rid) ?I = []"
    proof (rule filter_False, rule ballI)
      fix i assume "i \<in> set ?I"
      from fk [OF this] rid_new show "\<not> ind_ResourceID i = ?rid" by metis
    qed
    have rows: "filter (\<lambda>i. ind_ResourceID i = ResourceID ?res') (Indication_table (db_after r1)) = ?new"
      by (simp add: r1 old filter_rid_saved)
    have d: "diff_rows ?new lu [] = ([], [])" by (rule diff_rows_saved [OF dl])
    then have u: "unmatched ?new lu = []" and l: "rest_lu ?new lu = []"
      by (simp_all add: diff_rows_eq)
    show ?thesis
      using SetIndications_present [OF lu kept single _ rows] rid0
      by (simp add: u l r1)
  next
    case False
    let ?rid = "ResourceID ?res"
    let ?rows = "filter (\<lambda>i. ind_ResourceID i = ?rid) ?I"
    let ?new = "saved_rows ?rid (next_id (map IndicationID ?I)) (rest_lu ?rows lu)"
    let ?keep = "\<lambda>i. IndicationID i \<notin> set (map IndicationID (unmatched ?rows lu))"
    have r1: "db_after r1 = \<lparr>Resource_table = ?R, Indication_table = filter ?keep ?I @ ?new\<rparr>"
      using first SetIndications_present [OF lu kept refl False refl] by auto
    have single: "Single (filter (\<lambda>r. Uri r = String u) (Resource_table (db_after r1))) = ?res"
      by (simp add: r1)
    have di: "distinct (map IndicationID ?rows)"
      using wf by (simp add: wf_db_def distinct_map_filter)
    have "filter (\<lambda>i. ind_ResourceID i = ?rid) (filter ?keep ?I) = filter ?keep ?rows"
      by (simp add: conj_commute)
    also have "\<dots> = matched ?rows lu" by (rule filter_not_deleted [OF di])
    finally have rows: "filter (\<lambda>i. ind_ResourceID i = ?rid) (Indication_table (db_after r1))
        = matched ?rows lu @ ?new"
      by (simp add: r1 filter_rid_saved)
    show ?thesis
      using SetIndications_present [OF lu kept single False rows]
      by (simp add: unmatched_rest_empty [OF dl] rest_lu_empty [OF dl] r1)
  qed
qed

text \<open>
  C7. The claim (a second call of \<open>SetIndications\<close> with the same arguments inserts no
  row and deletes none) fails on the code when the database pads the fixed-length \<open>Key\<close>
  column, the column type \<open>models.go\<close> declares: the rows read back carry the padded
  key, and the callback looks it up in the indication's mapping as it is (\<open>lu[k]\<close>, with
  no trimming), so no row matches its entry, although the comment there says "don't
  re-insert the same indication". Here the first call on an empty repository inserts the
  rows 1 and 2; the same call again deletes both and inserts them again as the rows 3
  and 4. (When the column gives the keys back as they were saved, the second call does
  nothing: \<open>SetIndications_again_when_keys_kept\<close>.)
\<close>

theorem SetIndications_reinserts_padded_rows:
  "SetIndications right_padded \<lparr>Scheme = ''file'', Hostname = [], Path = ''a'', Query = []\<rparr>
       (Writes [(bytes_of ''length'', [0, 0, 0, 0, 0, 0, 0, 1]), (bytes_of ''crc32'', [5, 6, 7, 8])]
          \<lparr>buf = [], spare = replicate 256 0\<rparr>)
       \<lparr>Resource_table = [], Indication_table = []\<rparr>
     = Returns (Inr \<lparr>db_after =
          \<lparr>Resource_table = [\<lparr>ResourceID = 1, Uri = ''file:a''\<rparr>],
           Indication_table =
             [\<lparr>IndicationID = 1, ind_ResourceID = 1, Key = bytes_of ''length'' @ replicate 10 0x20,
               Value = [0, 0, 0, 0, 0, 0, 0, 1]\<rparr>,
              \<lparr>IndicationID = 2, ind_ResourceID = 1, Key = bytes_of ''crc32'' @ replicate 11 0x20,
               Value = [5, 6, 7, 8]\<rparr>]\<rparr>,
          deleted = [],
          created =
            [\<lparr>IndicationID = 1, ind_ResourceID = 1, Key = bytes_of ''length'' @ replicate 10 0x20,
              Value = [0, 0, 0, 0, 0, 0, 0, 1]\<rparr>,
             \<lparr>IndicationID = 2, ind_ResourceID = 1, Key = bytes_of ''crc32'' @ replicate 11 0x20,
              Value = [5, 6, 7, 8]\<rparr>]\<rparr>)
   \<and> SetIndications right_padded \<lparr>Scheme = ''file'', Hostname = [], Path = ''a'', Query = []\<rparr>
       (Writes [(bytes_of ''length'', [0, 0, 0, 0, 0, 0, 0, 1]), (bytes_of ''crc32'', [5, 6, 7, 8])]
          \<lparr>buf = [], spare = replicate 256 0\<rparr>)
       \<lparr>Resource_table = [\<lparr>ResourceID = 1, Uri = ''file:a''\<rparr>],
        Indication_table =
          [\<lparr>IndicationID = 1, ind_ResourceID = 1, Key = bytes_of ''length'' @ replicate 10 0x20,
            Value = [0, 0, 0, 0, 0, 0, 0, 1]\<rparr>,
           \<lparr>IndicationID = 2, ind_ResourceID = 1, Key = bytes_of ''crc32'' @ replicate 11 0x20,
            Value = [5, 6, 7, 8]\<rparr>]\<rparr>
     = Returns (Inr \<lparr>db_after =
          \<lparr>Resource_table = [\<lparr>ResourceID = 1, Uri = ''file:a''\<rparr>],
           Indication_table =
             [\<lparr>IndicationID = 3, ind_ResourceID = 1, Key = bytes_of ''length'' @ replicate 10 0x20,
               Value = [0, 0, 0, 0, 0, 0, 0, 1]\<rparr>,
              \<lparr>IndicationID = 4, ind_ResourceID = 1, Key = bytes_of ''crc32'' @ replicate 11 0x20,
               Value = [5, 6, 7, 8]\<rparr>]\<rparr>,
          deleted =
            [\<lparr>IndicationID = 1, ind_ResourceID = 1, Key = bytes_of ''length'' @ replicate 10 0x20,
              Value = [0, 0, 0, 0, 0, 0, 0, 1]\<rparr>,
             \<lparr>IndicationID = 2, ind_ResourceID = 1, Key = bytes_of ''crc32'' @ replicate 11 0x20,
              Value = [5, 6, 7, 8]\<rparr>],
          created =
            [\<lparr>IndicationID = 3, ind_ResourceID = 1, Key = bytes_of ''length'' @ replicate 10 0x20,
              Value = [0, 0, 0, 0, 0, 0, 0, 1]\<rparr>,
             \<lparr>IndicationID = 4, ind_ResourceID = 1, Key = bytes_of ''crc32'' @ replicate 11 0x20,
              Value = [5, 6, 7, 8]\<rparr>]\<rparr>)"
  by code_simp

text \<open>
  C2. The claim (after \<open>SetIndications(u, ind)\<close>, \<open>Indications(u)\<close> returns the mapping of
  \<open>ind\<close>) fails on the code as soon as the repository holds another resource: the query of
  \<open>Indications\<close> has no filter on the URI and returns the rows of every resource. Here
  \<open>file:a\<close> has a \<open>length\<close> row, \<open>file:b\<close> is given a \<open>crc32\<close> entry, and
  \<open>Indications\<close> of \<open>file:b\<close> returns both; the \<open>Key\<close> column gives the keys back as
  they were saved.
\<close>

theorem Indications_returns_other_resources_rows:
  "SetIndications stored_as_is \<lparr>Scheme = ''file'', Hostname = [], Path = ''b'', Query = []\<rparr>
       (Write (bytes_of ''crc32'') [5, 6, 7, 8] \<lparr>buf = [], spare = []\<rparr>)
       \<lparr>Resource_table = [\<lparr>ResourceID = 1, Uri = ''file:a''\<rparr>],
        Indication_table =
          [\<lparr>IndicationID = 1, ind_ResourceID = 1, Key = bytes_of ''length'', Value = [0, 0, 0, 0, 0, 0, 0, 1]\<rparr>]\<rparr>
     = Returns (Inr \<lparr>db_after =
          \<lparr>Resource_table = [\<lparr>ResourceID = 1, Uri = ''file:a''\<rparr>, \<lparr>ResourceID = 2, Uri = ''file:b''\<rparr>],
           Indication_table =
             [\<lparr>IndicationID = 1, ind_ResourceID = 1, Key = bytes_of ''length'', Value = [0, 0, 0, 0, 0, 0, 0, 1]\<rparr>,
              \<lparr>IndicationID = 2, ind_ResourceID = 2, Key = bytes_of ''crc32'', Value = [5, 6, 7, 8]\<rparr>]\<rparr>,
          deleted = [],
          created = [\<lparr>IndicationID = 2, ind_ResourceID = 2, Key = bytes_of ''crc32'', Value = [5, 6, 7, 8]\<rparr>]\<rparr>)
   \<and> Indications \<lparr>Scheme = ''file'', Hostname = [], Path = ''b'', Query = []\<rparr>
       \<lparr>Resource_table = [\<lparr>ResourceID = 1, Uri = ''file:a''\<rparr>, \<lparr>ResourceID = 2, Uri = ''file:b''\<rparr>],
        Indication_table =
          [\<lparr>IndicationID = 1, ind_ResourceID = 1, Key = bytes_of ''length'', Value = [0, 0, 0, 0, 0, 0, 0, 1]\<rparr>,
           \<lparr>IndicationID = 2, ind_ResourceID = 2, Key = bytes_of ''crc32'', Value = [5, 6, 7, 8]\<rparr>]\<rparr>
       None []
     = Returns (Some (Writes [(bytes_of ''length'', [0, 0, 0, 0, 0, 0, 0, 1]), (bytes_of ''crc32'', [5, 6, 7, 8])]
                        \<lparr>buf = [], spare = replicate 256 0\<rparr>), [])
   \<and> Lookup (Writes [(bytes_of ''length'', [0, 0, 0, 0, 0, 0, 0, 1]), (bytes_of ''crc32'', [5, 6, 7, 8])]
               \<lparr>buf = [], spare = replicate 256 0\<rparr>)
     = Returns (Inr [(bytes_of ''length'', [0, 0, 0, 0, 0, 0, 0, 1]), (bytes_of ''crc32'', [5, 6, 7, 8])])
   \<and> Lookup (Write (bytes_of ''crc32'') [5, 6, 7, 8] \<lparr>buf = [], spare = []\<rparr>)
     = Returns (Inr [(bytes_of ''crc32'', [5, 6, 7, 8])])"
  by code_simp


section \<open>Canonical URI strings\<close>















































end
